theory Spec2Isabelle
  imports Main "HOL-Library.Char_ord" "HOL-Library.List_Lexorder"
begin

section \<open>Strings\<close>

text \<open>
  Python strings are modelled as \<^typ>\<open>string\<close>: a character is a code point in the range
  0..255.  With \<^theory_text>\<open>Char_ord\<close> and \<^theory_text>\<open>List_Lexorder\<close> the order on
  \<^typ>\<open>string\<close> is the lexicographic order by code point, which is Python's order on
  \<open>str\<close>.
\<close>

definition lower_char :: "char \<Rightarrow> char" where
  \<comment> \<open>\<open>str.lower\<close> on one code point below 256: A-Z and the upper-case letters of Latin-1.\<close>
  "lower_char c =
     (let n = (of_char c :: nat)
      in if (65 \<le> n \<and> n \<le> 90) \<or> (192 \<le> n \<and> n \<le> 222 \<and> n \<noteq> 215)
         then char_of (n + 32) else c)"

definition lower :: "string \<Rightarrow> string" where
  "lower s = map lower_char s"

definition is_space :: "char \<Rightarrow> bool" where
  \<comment> \<open>\<open>str.isspace\<close> and the class \<open>\s\<close> of \<open>re\<close> on code points below 256:
      tab, LF, VT, FF, CR, the separators 0x1C..0x1F, space, NEL (0x85) and NBSP (0xA0).\<close>
  "is_space c =
     (let n = (of_char c :: nat)
      in (9 \<le> n \<and> n \<le> 13) \<or> (28 \<le> n \<and> n \<le> 32) \<or> n = 133 \<or> n = 160)"

definition strip :: "string \<Rightarrow> string" where
  \<comment> \<open>\<open>str.strip()\<close>\<close>
  "strip s = rev (dropWhile is_space (rev (dropWhile is_space s)))"

section \<open>The table parser (\<open>SimpleTableParser\<close>)\<close>

text \<open>
  \<open>HTMLParser.feed\<close> of the standard library tokenises the markup and calls the handlers
  \<open>handle_starttag\<close>, \<open>handle_endtag\<close> and \<open>handle_data\<close> in document order (a tag
  \<open><x/>\<close> gives a start and an end call).  The model takes that sequence of calls as its
  input.  The attributes of a start tag are ignored by the handler and are left out.
\<close>

datatype event = StartTag string | EndTag string | Data string

type_synonym row = "string list"
type_synonym table = "row list"

record parser =
  tables :: "table list"
  in_table_depth :: nat
  current_table :: "table option"
  current_row :: "row option"
  in_cell :: bool
  cell_buffer :: "string list"

definition parser_init :: parser where
  "parser_init =
     \<lparr>tables = [], in_table_depth = 0, current_table = None, current_row = None,
      in_cell = False, cell_buffer = []\<rparr>"

fun collapse_ws :: "string \<Rightarrow> string" where
  \<comment> \<open>\<open>re.sub(r"\s+", " ", text)\<close>: every maximal run of white space becomes one space.\<close>
  "collapse_ws [] = []"
| "collapse_ws [c] = [if is_space c then CHR '' '' else c]"
| "collapse_ws (c # d # cs) =
     (if is_space c then
        (if is_space d then collapse_ws (d # cs) else CHR '' '' # collapse_ws (d # cs))
      else c # collapse_ws (d # cs))"

definition clean_text :: "string \<Rightarrow> string" where
  "clean_text text = strip (collapse_ws text)"

definition handle_starttag :: "parser \<Rightarrow> string \<Rightarrow> parser" where
  "handle_starttag s tag =
     (let tag_lower = lower tag in
      if tag_lower = ''table'' then
        (let s1 = (if in_table_depth s = 0 then s\<lparr>current_table := Some []\<rparr> else s)
         in s1\<lparr>in_table_depth := in_table_depth s1 + 1\<rparr>)
      else if in_table_depth s > 0 then
        (if tag_lower = ''tr'' then s\<lparr>current_row := Some []\<rparr>
         else if tag_lower = ''td'' \<or> tag_lower = ''th'' then
           s\<lparr>in_cell := True, cell_buffer := []\<rparr>
         else s)
      else s)"

definition handle_endtag :: "parser \<Rightarrow> string \<Rightarrow> parser" where
  "handle_endtag s tag =
     (let tag_lower = lower tag in
      if tag_lower = ''table'' then
        (if in_table_depth s > 0 then
           (let s1 = s\<lparr>in_table_depth := in_table_depth s - 1\<rparr> in
            case current_table s1 of
              Some t \<Rightarrow>
                if in_table_depth s1 = 0
                then s1\<lparr>tables := tables s1 @ [t], current_table := None\<rparr>
                else s1
            | None \<Rightarrow> s1)
         else s)
      else if in_table_depth s > 0 then
        (if tag_lower = ''td'' \<or> tag_lower = ''th'' then
           (let s1 =
              (if in_cell s then
                 (let text = clean_text (concat (cell_buffer s)) in
                  case current_row s of
                    Some r \<Rightarrow> s\<lparr>current_row := Some (r @ [text])\<rparr>
                  | None \<Rightarrow> s)
               else s)
            in s1\<lparr>in_cell := False, cell_buffer := []\<rparr>)
         else if tag_lower = ''tr'' then
           (let s1 =
              (case (current_row s, current_table s) of
                 (Some r, Some t) \<Rightarrow> s\<lparr>current_table := Some (t @ [r])\<rparr>
               | _ \<Rightarrow> s)
            in s1\<lparr>current_row := None\<rparr>)
         else s)
      else s)"

definition handle_data :: "parser \<Rightarrow> string \<Rightarrow> parser" where
  "handle_data s data =
     (if in_table_depth s > 0 \<and> in_cell s
      then s\<lparr>cell_buffer := cell_buffer s @ [data]\<rparr> else s)"

fun handle :: "parser \<Rightarrow> event \<Rightarrow> parser" where
  "handle s (StartTag tag) = handle_starttag s tag"
| "handle s (EndTag tag) = handle_endtag s tag"
| "handle s (Data d) = handle_data s d"

definition feed :: "parser \<Rightarrow> event list \<Rightarrow> parser" where
  "feed s evs = foldl handle s evs"

definition parse_tables :: "event list \<Rightarrow> table list" where
  \<comment> \<open>\<open>parser = SimpleTableParser(); parser.feed(html); parser.tables\<close>\<close>
  "parse_tables evs = tables (feed parser_init evs)"

fun is_table_tag :: "event \<Rightarrow> bool" where
  "is_table_tag (StartTag tag) = (lower tag = ''table'')"
| "is_table_tag (EndTag tag) = (lower tag = ''table'')"
| "is_table_tag (Data d) = False"

fun balanced :: "nat \<Rightarrow> event list \<Rightarrow> bool" where
  \<comment> \<open>the table tags of the list are properly nested, seen from \<open>d\<close> open tables\<close>
  "balanced d [] = (d = 0)"
| "balanced d (StartTag tag # evs) =
     (if lower tag = ''table'' then balanced (Suc d) evs else balanced d evs)"
| "balanced d (EndTag tag # evs) =
     (if lower tag = ''table'' then 0 < d \<and> balanced (d - 1) evs else balanced d evs)"
| "balanced d (Data x # evs) = balanced d evs"

definition nested_inner :: "event list" where
  \<comment> \<open>the call sequence of
      \<open><tr><td>A</td><td><table><tr><td>X</td></tr></table></td></tr>\<close>\<close>
  "nested_inner =
     [StartTag ''tr'', StartTag ''td'', Data ''A'', EndTag ''td'',
      StartTag ''td'',
        StartTag ''table'', StartTag ''tr'', StartTag ''td'', Data ''X'', EndTag ''td'',
        EndTag ''tr'', EndTag ''table'',
      EndTag ''td'', EndTag ''tr'']"

definition nested_example :: "event list" where
  \<comment> \<open>the call sequence of
      \<open><table><tr><td>A</td><td><table><tr><td>X</td></tr></table></td></tr></table>\<close>\<close>
  "nested_example = StartTag ''table'' # nested_inner @ [EndTag ''table'']"

section \<open>The table filter of \<open>TableExtractor.extract\<close>\<close>

definition max_cols :: "table \<Rightarrow> nat" where
  \<comment> \<open>\<open>max((len(row) for row in table if isinstance(row, list)), default=0)\<close>;
      every row the parser builds is a list\<close>
  "max_cols t = (if t = [] then 0 else Max (set (map length t)))"

fun filter_loop :: "int \<Rightarrow> int \<Rightarrow> table list \<Rightarrow> table list \<Rightarrow> table list" where
  \<comment> \<open>the loop over \<open>parser.tables\<close>, with \<open>filtered_tables\<close> as accumulator; the
      \<open>break\<close> is tested after the table has been handled\<close>
  "filter_loop min_columns max_tables filtered [] = filtered"
| "filter_loop min_columns max_tables filtered (t # ts) =
     (let filtered1 = (if int (max_cols t) \<ge> min_columns then filtered @ [t] else filtered)
      in if int (length filtered1) \<ge> max_tables then filtered1
         else filter_loop min_columns max_tables filtered1 ts)"

definition filter_tables :: "table list \<Rightarrow> int \<Rightarrow> int \<Rightarrow> table list" where
  "filter_tables ts min_columns max_tables = filter_loop min_columns max_tables [] ts"

section \<open>JSON values and the Python operations used on them\<close>

text \<open>
  The fact graph is the value \<open>json.loads\<close> returns.  \<open>JDict\<close> lists the items of a
  Python \<open>dict\<close> in insertion order, so its keys are distinct.  Numbers are the integers;
  a number with a fraction is outside this model.
\<close>

datatype json =
    JNull
  | JBool bool
  | JInt int
  | JStr string
  | JList "json list"
  | JDict "(string \<times> json) list"

datatype error = TypeError | AttributeError | KeyError | OSError | ExtractionError

fun truthy :: "json \<Rightarrow> bool" where
  "truthy JNull = False"
| "truthy (JBool b) = b"
| "truthy (JInt n) = (n \<noteq> 0)"
| "truthy (JStr s) = (s \<noteq> [])"
| "truthy (JList xs) = (xs \<noteq> [])"
| "truthy (JDict kvs) = (kvs \<noteq> [])"

definition py_or :: "json \<Rightarrow> json \<Rightarrow> json" where
  \<comment> \<open>\<open>a or b\<close>\<close>
  "py_or a b = (if truthy a then a else b)"

definition item :: "(string \<times> json) list \<Rightarrow> string \<Rightarrow> json \<Rightarrow> json" where
  \<comment> \<open>\<open>d.get(k, default)\<close> on the items of a dict\<close>
  "item kvs k dflt = (case map_of kvs k of Some v \<Rightarrow> v | None \<Rightarrow> dflt)"

fun dict_get :: "json \<Rightarrow> string \<Rightarrow> json \<Rightarrow> error + json" where
  \<comment> \<open>\<open>x.get(k, default)\<close>: only a dict has the method\<close>
  "dict_get (JDict kvs) k dflt = Inr (item kvs k dflt)"
| "dict_get _ k dflt = Inl AttributeError"

fun num_of :: "json \<Rightarrow> int option" where
  \<comment> \<open>\<open>bool\<close> is a subclass of \<open>int\<close>\<close>
  "num_of (JInt n) = Some n"
| "num_of (JBool b) = Some (if b then 1 else 0)"
| "num_of _ = None"

fun py_eq :: "json \<Rightarrow> json \<Rightarrow> bool"
  and py_eq_list :: "json list \<Rightarrow> json list \<Rightarrow> bool"
  and py_eq_items :: "(string \<times> json) list \<Rightarrow> (string \<times> json) list \<Rightarrow> bool" where
  \<comment> \<open>\<open>a == b\<close>; two dicts are equal when they have the same keys with equal values\<close>
  "py_eq JNull b = (b = JNull)"
| "py_eq (JBool x) b = (num_of b = Some (if x then 1 else 0))"
| "py_eq (JInt n) b = (num_of b = Some n)"
| "py_eq (JStr s) b = (b = JStr s)"
| "py_eq (JList xs) b = (case b of JList ys \<Rightarrow> py_eq_list xs ys | _ \<Rightarrow> False)"
| "py_eq (JDict xs) b =
     (case b of JDict ys \<Rightarrow> length xs = length ys \<and> py_eq_items xs ys | _ \<Rightarrow> False)"
| "py_eq_list [] ys = (ys = [])"
| "py_eq_list (x # xs) ys =
     (case ys of [] \<Rightarrow> False | y # ys' \<Rightarrow> py_eq x y \<and> py_eq_list xs ys')"
| "py_eq_items [] ys = True"
| "py_eq_items (kv # xs) ys =
     (case map_of ys (fst kv) of
        None \<Rightarrow> False
      | Some v' \<Rightarrow> py_eq (snd kv) v' \<and> py_eq_items xs ys)"

fun py_gt :: "json \<Rightarrow> json \<Rightarrow> error + bool"
  and py_gt_list :: "json list \<Rightarrow> json list \<Rightarrow> error + bool" where
  \<comment> \<open>\<open>a > b\<close>: strings by code points, numbers by value, lists by their first differing
      items; every other pair of types raises \<open>TypeError\<close>\<close>
  "py_gt (JStr a) b = (case b of JStr b' \<Rightarrow> Inr (b' < a) | _ \<Rightarrow> Inl TypeError)"
| "py_gt (JList xs) b = (case b of JList ys \<Rightarrow> py_gt_list xs ys | _ \<Rightarrow> Inl TypeError)"
| "py_gt (JInt n) b = (case num_of b of Some m \<Rightarrow> Inr (m < n) | None \<Rightarrow> Inl TypeError)"
| "py_gt (JBool x) b =
     (case num_of b of Some m \<Rightarrow> Inr (m < (if x then 1 else 0)) | None \<Rightarrow> Inl TypeError)"
| "py_gt JNull b = Inl TypeError"
| "py_gt (JDict kvs) b = Inl TypeError"
| "py_gt_list [] ys = Inr False"
| "py_gt_list (x # xs) ys =
     (case ys of
        [] \<Rightarrow> Inr True
      | y # ys' \<Rightarrow> if py_eq x y then py_gt_list xs ys' else py_gt x y)"

fun is_substring :: "string \<Rightarrow> string \<Rightarrow> bool" where
  "is_substring u [] = (u = [])"
| "is_substring u (c # cs) = (take (length u) (c # cs) = u \<or> is_substring u cs)"

fun py_contains :: "json \<Rightarrow> string \<Rightarrow> error + bool" where
  \<comment> \<open>\<open>u in x\<close> for a string \<open>u\<close>: a key of a dict, an item of a list, a substring of a
      string\<close>
  "py_contains (JDict kvs) u = Inr (u \<in> set (map fst kvs))"
| "py_contains (JList xs) u = Inr (JStr u \<in> set xs)"
| "py_contains (JStr s) u = Inr (is_substring u s)"
| "py_contains _ u = Inl TypeError"

fun py_getitem :: "json \<Rightarrow> string \<Rightarrow> error + json" where
  \<comment> \<open>\<open>x[u]\<close> for a string \<open>u\<close>\<close>
  "py_getitem (JDict kvs) u = (case map_of kvs u of Some v \<Rightarrow> Inr v | None \<Rightarrow> Inl KeyError)"
| "py_getitem _ u = Inl TypeError"

fun py_values :: "json \<Rightarrow> error + json list" where
  \<comment> \<open>\<open>x.values()\<close>\<close>
  "py_values (JDict kvs) = Inr (map snd kvs)"
| "py_values _ = Inl AttributeError"

fun py_iter :: "json \<Rightarrow> error + json list" where
  \<comment> \<open>the items \<open>for obs in x\<close> runs through\<close>
  "py_iter (JList xs) = Inr xs"
| "py_iter (JDict kvs) = Inr (map (\<lambda>kv. JStr (fst kv)) kvs)"
| "py_iter (JStr s) = Inr (map (\<lambda>c. JStr [c]) s)"
| "py_iter _ = Inl TypeError"

fun hashable :: "json \<Rightarrow> bool" where
  "hashable (JList xs) = False"
| "hashable (JDict kvs) = False"
| "hashable _ = True"

fun key_norm :: "json \<Rightarrow> json" where
  \<comment> \<open>two hashable values are the same dict key when they are equal: \<open>True\<close> is \<open>1\<close>\<close>
  "key_norm (JBool b) = JInt (if b then 1 else 0)"
| "key_norm k = k"

section \<open>The series of one unit (\<open>_parse_unit_series\<close>)\<close>

text \<open>
  A series is the dict \<open>date \<rightarrow> (value, filed)\<close>, as the list of its items in insertion
  order.
\<close>

type_synonym series = "(json \<times> json \<times> json) list"

fun series_get :: "series \<Rightarrow> json \<Rightarrow> (json \<times> json) option" where
  \<comment> \<open>\<open>series.get(date)\<close>\<close>
  "series_get [] k = None"
| "series_get (kv # s) k =
     (if key_norm (fst kv) = key_norm k then Some (snd kv) else series_get s k)"

fun series_set :: "series \<Rightarrow> json \<Rightarrow> json \<times> json \<Rightarrow> series" where
  \<comment> \<open>\<open>series[date] = entry\<close>: an existing key keeps its place\<close>
  "series_set [] k e = [(k, e)]"
| "series_set (kv # s) k e =
     (if key_norm (fst kv) = key_norm k then (fst kv, e) # s else kv # series_set s k e)"

definition parse_obs :: "series \<Rightarrow> json \<Rightarrow> error + series" where
  \<comment> \<open>the body of the loop over the observations\<close>
  "parse_obs series obs =
     (case obs of
        JDict kvs \<Rightarrow>
          (let date = py_or (py_or (item kvs ''end'' JNull) (item kvs ''instant'' JNull))
                            (item kvs ''filed'' JNull)
           in if \<not> truthy date then Inr series
              else
                (let value = item kvs ''val'' JNull;
                     filed = item kvs ''filed'' (JStr [])
                 in if \<not> hashable date then Inl TypeError
                    else
                      (case series_get series date of
                         None \<Rightarrow> Inr (series_set series date (value, filed))
                       | Some existing \<Rightarrow>
                           if \<not> truthy filed then Inr series
                           else
                             (case py_gt filed (snd existing) of
                                Inl e \<Rightarrow> Inl e
                              | Inr b \<Rightarrow>
                                  Inr (if b then series_set series date (value, filed)
                                       else series)))))
      | _ \<Rightarrow> Inl AttributeError)"

fun parse_loop :: "series \<Rightarrow> json list \<Rightarrow> error + series" where
  "parse_loop series [] = Inr series"
| "parse_loop series (obs # rest) =
     (case parse_obs series obs of Inl e \<Rightarrow> Inl e | Inr series1 \<Rightarrow> parse_loop series1 rest)"

definition parse_unit_series :: "json \<Rightarrow> error + series" where
  "parse_unit_series unit_data =
     (case py_iter unit_data of Inl e \<Rightarrow> Inl e | Inr obs \<Rightarrow> parse_loop [] obs)"

section \<open>The series of a fact (\<open>_extract_series\<close>)\<close>

fun try_any :: "json list \<Rightarrow> error + series" where
  \<comment> \<open>the loop over \<open>units.values()\<close>\<close>
  "try_any [] = Inr []"
| "try_any (unit_data # rest) =
     (case parse_unit_series unit_data of
        Inl e \<Rightarrow> Inl e
      | Inr series \<Rightarrow> if series \<noteq> [] then Inr series else try_any rest)"

fun try_preferred :: "json \<Rightarrow> string list \<Rightarrow> error + series" where
  \<comment> \<open>the loop over \<open>preferred_units\<close>, followed by the loop over all units\<close>
  "try_preferred units [] =
     (case py_values units of Inl e \<Rightarrow> Inl e | Inr vs \<Rightarrow> try_any vs)"
| "try_preferred units (unit # rest) =
     (case py_contains units unit of
        Inl e \<Rightarrow> Inl e
      | Inr present \<Rightarrow>
          if present then
            (case py_getitem units unit of
               Inl e \<Rightarrow> Inl e
             | Inr unit_data \<Rightarrow> parse_unit_series unit_data)
          else try_preferred units rest)"

definition extract_series :: "string list \<Rightarrow> json \<Rightarrow> error + series" where
  "extract_series preferred_units fact_obj =
     (case dict_get fact_obj ''units'' (JDict []) of
        Inl e \<Rightarrow> Inl e
      | Inr units \<Rightarrow> try_preferred units preferred_units)"

section \<open>Well-formed observations\<close>

text \<open>
  An observation of the fact graph is a record whose \<open>end\<close>, \<open>instant\<close> and \<open>filed\<close>
  fields, where present, are strings (\<open>end\<close> and \<open>instant\<close> may also be null).  For
  such a record the date key is a string, empty when the record has no usable date, and
  the filed date is a string, empty when the record has none.
\<close>

fun is_str :: "json \<Rightarrow> bool" where
  "is_str (JStr s) = True"
| "is_str _ = False"

fun the_str :: "json \<Rightarrow> string" where
  "the_str (JStr s) = s"
| "the_str _ = []"

fun str_or_null :: "json \<Rightarrow> bool" where
  "str_or_null (JStr s) = True"
| "str_or_null JNull = True"
| "str_or_null _ = False"

definition wf_obs :: "json \<Rightarrow> bool" where
  "wf_obs obs =
     (case obs of
        JDict kvs \<Rightarrow>
          str_or_null (item kvs ''end'' JNull) \<and> str_or_null (item kvs ''instant'' JNull) \<and>
          is_str (item kvs ''filed'' (JStr []))
      | _ \<Rightarrow> False)"

definition obs_date :: "json \<Rightarrow> string" where
  \<comment> \<open>\<open>obs.get("end") or obs.get("instant") or obs.get("filed")\<close>\<close>
  "obs_date obs =
     (case obs of
        JDict kvs \<Rightarrow>
          the_str (py_or (py_or (item kvs ''end'' JNull) (item kvs ''instant'' JNull))
                         (item kvs ''filed'' JNull))
      | _ \<Rightarrow> [])"

definition obs_filed :: "json \<Rightarrow> string" where
  \<comment> \<open>\<open>obs.get("filed", "")\<close>\<close>
  "obs_filed obs = (case obs of JDict kvs \<Rightarrow> the_str (item kvs ''filed'' (JStr [])) | _ \<Rightarrow> [])"

definition obs_val :: "json \<Rightarrow> json" where
  \<comment> \<open>\<open>obs.get("val")\<close>\<close>
  "obs_val obs = (case obs of JDict kvs \<Rightarrow> item kvs ''val'' JNull | _ \<Rightarrow> JNull)"

definition str_series :: "series \<Rightarrow> bool" where
  \<comment> \<open>every date key and every filed date of the series is a string\<close>
  "str_series s = list_all (\<lambda>kv. is_str (fst kv) \<and> is_str (snd (snd kv))) s"

definition first_latest :: "json list \<Rightarrow> string \<Rightarrow> json list \<Rightarrow> json \<Rightarrow> json list \<Rightarrow> bool" where
  \<comment> \<open>\<open>ob\<close>, at the place \<open>pre @ ob # post\<close> of the list, has the date key \<open>d\<close>; every
      observation of that date before it was filed strictly earlier, and none after it was
      filed later\<close>
  "first_latest obs d pre ob post =
     (obs = pre @ ob # post \<and> obs_date ob = d \<and>
      list_all (\<lambda>x. obs_date x = d \<longrightarrow> obs_filed x < obs_filed ob) pre \<and>
      list_all (\<lambda>x. obs_date x = d \<longrightarrow> obs_filed x \<le> obs_filed ob) post)"

definition resolved :: "json list \<Rightarrow> series \<Rightarrow> string \<Rightarrow> bool" where
  \<comment> \<open>the entry of the series for the date \<open>d\<close>: none when no observation has that date,
      else the value and the filed date of the first of the latest-filed observations\<close>
  "resolved os s d =
     (case series_get s (JStr d) of
        None \<Rightarrow> \<forall>x \<in> set os. obs_date x \<noteq> d
      | Some e \<Rightarrow> \<exists>pre w post. first_latest os d pre w post \<and> e = (obs_val w, JStr (obs_filed w)))"

definition obs :: "string \<Rightarrow> string \<Rightarrow> int \<Rightarrow> json" where
  \<comment> \<open>the record \<open>{"end": e, "val": v, "filed": f}\<close>\<close>
  "obs e f v = JDict [(''end'', JStr e), (''val'', JInt v), (''filed'', JStr f)]"

definition revised_pair :: "json list" where
  \<comment> \<open>two observations of one reporting date, the second filed later\<close>
  "revised_pair =
     [obs ''2023-12-31'' ''2023-01-10'' 100, obs ''2023-12-31'' ''2023-02-15'' 120]"

definition no_filed :: json where
  \<comment> \<open>\<open>{"end": "2023-12-31", "val": 7}\<close>, an observation without a filed date\<close>
  "no_filed = JDict [(''end'', JStr ''2023-12-31''), (''val'', JInt 7)]"

definition same_filed_pair :: "json list" where
  \<comment> \<open>two observations of one reporting date with the same filed date\<close>
  "same_filed_pair =
     [obs ''2023-12-31'' ''2024-02-01'' 1, obs ''2023-12-31'' ''2024-02-01'' 2]"

definition usd_and_shares :: "(string \<times> json) list" where
  \<comment> \<open>a unit map with two observations in \<open>shares\<close> and one in \<open>USD\<close>\<close>
  "usd_and_shares =
     [(''shares'', JList [obs ''2022-12-31'' ''2023-02-01'' 7, obs ''2023-12-31'' ''2024-02-01'' 8]),
      (''USD'', JList [obs ''2023-12-31'' ''2024-02-01'' 500])]"

definition other_units :: "(string \<times> json) list" where
  \<comment> \<open>a unit map without a preferred unit; the first unit has no observation\<close>
  "other_units =
     [(''EUR'', JList []),
      (''GBP'', JList [obs ''2023-12-31'' ''2024-02-01'' 9])]"

definition null_filed_pair :: "json list" where
  \<comment> \<open>\<open>[{"end": "2023-12-31", "val": 100, "filed": null},
      {"end": "2023-12-31", "val": 120, "filed": "2024-01-01"}]\<close>: the first observation
      has no filed date, written as a null\<close>
  "null_filed_pair =
     [JDict [(''end'', JStr ''2023-12-31''), (''val'', JInt 100), (''filed'', JNull)],
      obs ''2023-12-31'' ''2024-01-01'' 120]"

definition absent_filed_pair :: "json list" where
  \<comment> \<open>the same two observations, the first one without the key \<open>filed\<close>\<close>
  "absent_filed_pair =
     [JDict [(''end'', JStr ''2023-12-31''), (''val'', JInt 100)],
      obs ''2023-12-31'' ''2024-01-01'' 120]"

section \<open>One statement (\<open>_generate_statement\<close>)\<close>

definition set_add :: "json list \<Rightarrow> json \<Rightarrow> json list" where
  \<comment> \<open>adding one key to the set \<open>all_dates\<close>\<close>
  "set_add ds k = (if key_norm k \<in> set (map key_norm ds) then ds else ds @ [k])"

definition set_update :: "json list \<Rightarrow> json list \<Rightarrow> json list" where
  \<comment> \<open>\<open>all_dates.update(keys)\<close>\<close>
  "set_update ds ks = foldl set_add ds ks"

definition py_sorted :: "json list \<Rightarrow> error + json list" where
  \<comment> \<open>\<open>sorted(all_dates)\<close>.  The keys of a series are strings, integers or booleans, and
      they are distinct: strings sort by code points, numbers by value, and comparing a
      string with a number raises \<open>TypeError\<close>.\<close>
  "py_sorted ks =
     (if length ks \<le> 1 then Inr ks
      else if list_all is_str ks then Inr (map JStr (sort (map the_str ks)))
      else if list_all (\<lambda>k. num_of k \<noteq> None) ks then Inr (sort_key (\<lambda>k. the (num_of k)) ks)
      else Inl TypeError)"

type_synonym csv = "json list list"

fun collect ::
  "json \<Rightarrow> string list \<Rightarrow> string list \<Rightarrow> (string \<times> series) list \<times> json list \<Rightarrow>
   error + (string \<times> series) list \<times> json list" where
  \<comment> \<open>the loop over the concepts; the state is \<open>(concept_series, all_dates)\<close>, where the
      newest entry of the dict \<open>concept_series\<close> comes first\<close>
  "collect us_gaap preferred_units [] st = Inr st"
| "collect us_gaap preferred_units (concept_name # rest) st =
     (case dict_get us_gaap concept_name JNull of
        Inl e \<Rightarrow> Inl e
      | Inr fact_obj \<Rightarrow>
          if \<not> truthy fact_obj then collect us_gaap preferred_units rest st
          else
            (case extract_series preferred_units fact_obj of
               Inl e \<Rightarrow> Inl e
             | Inr series \<Rightarrow>
                 if series \<noteq> [] then
                   collect us_gaap preferred_units rest
                     ((concept_name, series) # fst st, set_update (snd st) (map fst series))
                 else collect us_gaap preferred_units rest st))"

definition cell :: "(string \<times> series) list \<Rightarrow> string \<Rightarrow> json \<Rightarrow> json" where
  \<comment> \<open>\<open>series = concept_series.get(concept, {}); value, _ = series.get(date, ("", ""))\<close>\<close>
  "cell concept_series concept date =
     fst (case series_get (case map_of concept_series concept of Some s \<Rightarrow> s | None \<Rightarrow> []) date of
            Some e \<Rightarrow> e
          | None \<Rightarrow> (JStr [], JStr []))"

definition generate_statement ::
  "string list \<Rightarrow> json \<Rightarrow> string list \<Rightarrow> bool \<Rightarrow> error + csv option" where
  \<comment> \<open>The result is the list of rows given to the csv writer, or \<open>None\<close> when there is no
      date.  \<open>writable\<close> tells whether the output file can be opened.\<close>
  "generate_statement preferred_units us_gaap concepts writable =
     (case collect us_gaap preferred_units concepts ([], []) of
        Inl e \<Rightarrow> Inl e
      | Inr st \<Rightarrow>
          if snd st = [] then Inr None
          else
            (case py_sorted (snd st) of
               Inl e \<Rightarrow> Inl e
             | Inr sorted_dates \<Rightarrow>
                 if \<not> writable then Inl OSError
                 else
                   Inr (Some ((JStr ''Date'' # map JStr concepts) #
                              map (\<lambda>date. date # map (\<lambda>concept. cell (fst st) concept date) concepts)
                                  sorted_dates))))"

section \<open>All statements (\<open>FinancialStatementExtractor.extract\<close>)\<close>

record config =
  preferred_units :: "string list"
  income_statement_concepts :: "string list"
  balance_sheet_concepts :: "string list"
  cash_flow_concepts :: "string list"

record statements =
  generated :: "(string \<times> csv) list"
  raw_json :: bool
  statement_count :: nat

fun generate_all ::
  "string list \<Rightarrow> json \<Rightarrow> (string \<Rightarrow> bool) \<Rightarrow> (string \<times> string list) list \<Rightarrow>
   (string \<times> csv) list \<Rightarrow> error + (string \<times> csv) list" where
  \<comment> \<open>the loop over the statements; \<open>writable code\<close> tells whether the file of the
      statement \<open>code\<close> can be opened\<close>
  "generate_all pu us_gaap writable [] gen = Inr gen"
| "generate_all pu us_gaap writable (sc # rest) gen =
     (case generate_statement pu us_gaap (snd sc) (writable (fst sc)) of
        Inl e \<Rightarrow> Inl e
      | Inr None \<Rightarrow> generate_all pu us_gaap writable rest gen
      | Inr (Some rows) \<Rightarrow> generate_all pu us_gaap writable rest (gen @ [(fst sc, rows)]))"

definition extract_body ::
  "config \<Rightarrow> error + json \<Rightarrow> (string \<Rightarrow> bool) \<Rightarrow> bool \<Rightarrow> error + statements" where
  \<comment> \<open>the body of the \<open>try\<close>; \<open>response\<close> is what \<open>client.get_company_facts\<close> returns or
      raises.  Writing the raw JSON catches its own errors.\<close>
  "extract_body cfg response writable save_raw =
     (case response of
        Inl e \<Rightarrow> Inl e
      | Inr facts \<Rightarrow>
          (case dict_get facts ''facts'' (JDict []) of
             Inl e \<Rightarrow> Inl e
           | Inr all_facts \<Rightarrow>
               (case dict_get all_facts ''us-gaap'' (JDict []) of
                  Inl e \<Rightarrow> Inl e
                | Inr us_gaap0 \<Rightarrow>
                    (let us_gaap = (if \<not> truthy us_gaap0 then all_facts else us_gaap0) in
                     if \<not> truthy us_gaap then Inl ExtractionError
                     else
                       (case generate_all (preferred_units cfg) us_gaap writable
                               [(''IS'', income_statement_concepts cfg),
                                (''BS'', balance_sheet_concepts cfg),
                                (''CF'', cash_flow_concepts cfg)] [] of
                          Inl e \<Rightarrow> Inl e
                        | Inr gen \<Rightarrow>
                            Inr \<lparr>generated = gen, raw_json = save_raw,
                                 statement_count = length gen\<rparr>)))))"

definition extract_statements ::
  "config \<Rightarrow> bool \<Rightarrow> error + json \<Rightarrow> (string \<Rightarrow> bool) \<Rightarrow> bool \<Rightarrow> error + statements" where
  \<comment> \<open>\<open>dir_ok\<close> tells whether the output directory can be made, which is done before the
      \<open>try\<close>; every exception raised inside the \<open>try\<close> is raised again as
      \<open>ExtractionError\<close>.\<close>
  "extract_statements cfg dir_ok response writable save_raw =
     (if \<not> dir_ok then Inl OSError
      else
        (case extract_body cfg response writable save_raw of
           Inl e \<Rightarrow> Inl ExtractionError
         | Inr r \<Rightarrow> Inr r))"

definition assets_graph :: json where
  \<comment> \<open>\<open>{"Assets": {"units": {"USD": [{"end": "2023-12-31", "val": 500, "filed": "2024-02-01"},
      {"end": "2023-12-31", "val": 510, "filed": "2024-02-20"}]}},
      "Liabilities": {"units": [1]}}\<close>: the units of the second concept are not a mapping\<close>
  "assets_graph =
     JDict [(''Assets'', JDict [(''units'', JDict [(''USD'',
               JList [obs ''2023-12-31'' ''2024-02-01'' 500,
                      obs ''2023-12-31'' ''2024-02-20'' 510])])]),
            (''Liabilities'', JDict [(''units'', JList [JInt 1])])]"

section \<open>Well-formed facts\<close>

definition wf_unit :: "json \<Rightarrow> bool" where
  \<comment> \<open>the data of a unit: a list of well-formed observations\<close>
  "wf_unit unit_data = (case unit_data of JList os \<Rightarrow> list_all wf_obs os | _ \<Rightarrow> False)"

definition wf_fact :: "json \<Rightarrow> bool" where
  \<comment> \<open>a fact: a record whose \<open>units\<close> are a mapping from unit names to unit data\<close>
  "wf_fact fact_obj =
     (case fact_obj of
        JDict kvs \<Rightarrow>
          (case item kvs ''units'' (JDict []) of
             JDict units \<Rightarrow> list_all wf_unit (map snd units)
           | _ \<Rightarrow> False)
      | _ \<Rightarrow> False)"

definition wf_concept :: "(string \<times> json) list \<Rightarrow> string \<Rightarrow> bool" where
  \<comment> \<open>the concept is absent from the graph (or its fact is empty), or its fact is well
      formed\<close>
  "wf_concept g c = (if truthy (item g c JNull) then wf_fact (item g c JNull) else True)"

definition series_of :: "string list \<Rightarrow> (string \<times> json) list \<Rightarrow> string \<Rightarrow> series" where
  \<comment> \<open>the resolved series of a concept of the graph, empty when the concept has none\<close>
  "series_of pu g c =
     (case extract_series pu (item g c JNull) of Inr s \<Rightarrow> s | Inl e \<Rightarrow> [])"

definition has_date :: "series \<Rightarrow> string \<Rightarrow> bool" where
  "has_date s d = (series_get s (JStr d) \<noteq> None)"

definition value_at :: "series \<Rightarrow> string \<Rightarrow> json" where
  \<comment> \<open>the resolved value of a date, the empty string when there is none\<close>
  "value_at s d = (case series_get s (JStr d) of Some e \<Rightarrow> fst e | None \<Rightarrow> JStr [])"

definition two_concepts :: "(string \<times> json) list" where
  \<comment> \<open>\<open>Assets\<close> on two dates, the later one revised; \<open>Cash\<close> on the later date only\<close>
  "two_concepts =
     [(''Assets'', JDict [(''units'', JDict [(''USD'',
         JList [obs ''2023-12-31'' ''2024-02-01'' 500,
                obs ''2022-12-31'' ''2023-02-01'' 400,
                obs ''2023-12-31'' ''2024-02-20'' 510])])]),
      (''Cash'', JDict [(''units'', JDict [(''USD'',
         JList [obs ''2023-12-31'' ''2024-02-01'' 50])])])]"

definition bad_obs_graph :: json where
  \<comment> \<open>the second observation of \<open>Liabilities\<close> is a string, not a record\<close>
  "bad_obs_graph =
     JDict [(''Assets'', JDict [(''units'', JDict [(''USD'',
               JList [obs ''2023-12-31'' ''2024-02-01'' 500])])]),
            (''Liabilities'', JDict [(''units'', JDict [(''USD'',
               JList [obs ''2023-12-31'' ''2024-02-01'' 300, JStr ''n/a''])])])]"

definition bs_config :: config where
  "bs_config =
     \<lparr>preferred_units = [''USD'', ''shares''],
      income_statement_concepts = [''Revenues''],
      balance_sheet_concepts = [''Assets'', ''Liabilities''],
      cash_flow_concepts = [''PaymentsOfDividends'']\<rparr>"

definition company_facts :: "json \<Rightarrow> json" where
  \<comment> \<open>\<open>{"facts": {"us-gaap": us_gaap}}\<close>\<close>
  "company_facts us_gaap = JDict [(''facts'', JDict [(''us-gaap'', us_gaap)])]"

section \<open>Regular expressions of the section extractor\<close>

text \<open>
  The patterns of the source are matched by hand-written matchers.  A matcher takes the
  text from the place where a match is tried and returns what is left after the match
  that \<open>re\<close> finds there, or \<open>None\<close> when the pattern does not match at that place.
  No pattern of the source matches the empty string.
\<close>

function re_sub :: "(string \<Rightarrow> string option) \<Rightarrow> string \<Rightarrow> string \<Rightarrow> string" where
  \<comment> \<open>\<open>re.sub(pattern, repl, text)\<close>: the matches are taken from left to right, and the
      search goes on after each match\<close>
  "re_sub m repl [] = []"
| "re_sub m repl (c # cs) =
     (case m (c # cs) of
        None \<Rightarrow> c # re_sub m repl cs
      | Some rest \<Rightarrow>
          if length rest < length (c # cs) then repl @ re_sub m repl rest
          else c # re_sub m repl cs)"
  by pat_completeness auto
termination
  by (relation "measure (\<lambda>(m, repl, s). length s)") auto

definition starts_with_ci :: "string \<Rightarrow> string \<Rightarrow> bool" where
  \<comment> \<open>the text starts with the lower-case word \<open>w\<close>, whatever the case of its letters\<close>
  "starts_with_ci w s = (lower (take (length w) s) = w)"

fun find_after :: "string \<Rightarrow> string \<Rightarrow> string option" where
  \<comment> \<open>what follows the first occurrence of the lower-case word \<open>w\<close>, in any case\<close>
  "find_after w [] = (if w = [] then Some [] else None)"
| "find_after w (c # cs) =
     (if starts_with_ci w (c # cs) then Some (drop (length w) (c # cs)) else find_after w cs)"

definition m_block :: "string \<Rightarrow> string \<Rightarrow> string \<Rightarrow> string option" where
  \<comment> \<open>\<open><script[\s\S]*?</script>\<close> with \<open>re.I\<close>, for \<open>opening = "<script"\<close> and
      \<open>closing = "</script>"\<close>: the shortest text up to the first closing tag\<close>
  "m_block opening closing s =
     (if starts_with_ci opening s then find_after closing (drop (length opening) s) else None)"

definition is_digit :: "char \<Rightarrow> bool" where
  \<comment> \<open>the class \<open>\d\<close> on code points below 256\<close>
  "is_digit c = (let n = (of_char c :: nat) in 48 \<le> n \<and> n \<le> 57)"

definition is_letter :: "char \<Rightarrow> bool" where
  \<comment> \<open>the class \<open>[a-z]\<close> with \<open>re.I\<close> on code points below 256\<close>
  "is_letter c = (let n = (of_char c :: nat) in (65 \<le> n \<and> n \<le> 90) \<or> (97 \<le> n \<and> n \<le> 122))"

definition m_block_tag :: "string \<Rightarrow> string option" where
  \<comment> \<open>\<open><(br|/p|/div|/tr|/h\d)>\<close> with \<open>re.I\<close>\<close>
  "m_block_tag s =
     (if starts_with_ci ''<br>'' s then Some (drop 4 s)
      else if starts_with_ci ''</p>'' s then Some (drop 4 s)
      else if starts_with_ci ''</div>'' s then Some (drop 6 s)
      else if starts_with_ci ''</tr>'' s then Some (drop 5 s)
      else if starts_with_ci ''</h'' s then
        (case drop 3 s of
           d # g # rest \<Rightarrow> if is_digit d \<and> g = CHR ''>'' then Some rest else None
         | _ \<Rightarrow> None)
      else None)"

definition m_tag :: "string \<Rightarrow> string option" where
  \<comment> \<open>\<open><[^>]+>\<close>\<close>
  "m_tag s =
     (case s of
        [] \<Rightarrow> None
      | c # cs \<Rightarrow>
          if c = CHR ''<'' then
            (let body = takeWhile (\<lambda>x. x \<noteq> CHR ''>'') cs in
             if body = [] then None
             else (case dropWhile (\<lambda>x. x \<noteq> CHR ''>'') cs of [] \<Rightarrow> None | g # rest \<Rightarrow> Some rest))
          else None)"

definition m_cr :: "string \<Rightarrow> string option" where
  \<comment> \<open>\<open>\r\n|\r\<close>\<close>
  "m_cr s =
     (case s of
        [] \<Rightarrow> None
      | c # cs \<Rightarrow>
          if c = CHR 0x0D then
            (case cs of [] \<Rightarrow> Some [] | d # ds \<Rightarrow> if d = CHR 0x0A then Some ds else Some cs)
          else None)"

definition m_nbsp :: "string \<Rightarrow> string option" where
  \<comment> \<open>the no-break space U+00A0\<close>
  "m_nbsp s = (case s of [] \<Rightarrow> None | c # cs \<Rightarrow> if c = CHR 0xA0 then Some cs else None)"

definition m_blanks :: "string \<Rightarrow> string option" where
  \<comment> \<open>\<open>[\t ]+\<close>\<close>
  "m_blanks s =
     (if takeWhile (\<lambda>x. x = CHR 0x09 \<or> x = CHR '' '') s = [] then None
      else Some (dropWhile (\<lambda>x. x = CHR 0x09 \<or> x = CHR '' '') s))"

definition m_newlines :: "nat \<Rightarrow> string \<Rightarrow> string option" where
  \<comment> \<open>\<open>\n{k,}\<close>\<close>
  "m_newlines k s =
     (if length (takeWhile (\<lambda>x. x = CHR 0x0A) s) < k then None
      else Some (dropWhile (\<lambda>x. x = CHR 0x0A) s))"

section \<open>Markup to text (\<open>SectionExtractor._html_to_text\<close>)\<close>

definition markup_removed :: "string \<Rightarrow> string" where
  \<comment> \<open>The first four substitutions, up to \<open>re.sub(r"<[^>]+>", " ", text)\<close>.  As in the
      source, the second substitution is made on \<open>html\<close>, not on the result of the
      first.\<close>
  "markup_removed html =
     (let text = re_sub (m_block ''<script'' ''</script>'') '' '' html;
          text = re_sub (m_block ''<style'' ''</style>'') '' '' html;
          text = re_sub m_block_tag [CHR 0x0A] text;
          text = re_sub m_tag '' '' text
      in text)"

definition html_to_text :: "(string \<Rightarrow> string) \<Rightarrow> string \<Rightarrow> string" where
  \<comment> \<open>\<open>unescape\<close> stands for \<open>html.unescape\<close> of the standard library, which leaves a
      text without \<open>&\<close> as it is.\<close>
  "html_to_text unescape html =
     (let text = markup_removed html;
          text = unescape text;
          text = re_sub m_cr [CHR 0x0A] text;
          text = re_sub m_nbsp '' '' text;
          text = re_sub m_blanks '' '' text;
          text = re_sub (m_newlines 2) [CHR 0x0A, CHR 0x0A] text
      in text)"

section \<open>Section boundaries (\<open>SectionExtractor._find_sections\<close>)\<close>

definition match_item :: "string \<Rightarrow> (string \<times> string \<times> string) option" where
  \<comment> \<open>\<open>\s*item\s+(\d+[a-z]?)\.?\s*(.*)$\<close> with \<open>re.I\<close> and \<open>re.M\<close>, tried at the start of
      a line: the two groups and what is left after the match.  \<open>\s\<close> also runs over line
      breaks; \<open>.\<close> does not.\<close>
  "match_item s =
     (let s1 = dropWhile is_space s in
      if \<not> starts_with_ci ''item'' s1 then None
      else
        (let s2 = drop 4 s1 in
         if takeWhile is_space s2 = [] then None
         else
           (let s3 = dropWhile is_space s2;
                digits = takeWhile is_digit s3 in
            if digits = [] then None
            else
              (let s4 = dropWhile is_digit s3;
                   letter = (case s4 of [] \<Rightarrow> [] | c # cs \<Rightarrow> if is_letter c then [c] else []);
                   s5 = drop (length letter) s4;
                   s6 = (case s5 of [] \<Rightarrow> [] | c # cs \<Rightarrow> if c = CHR ''.'' then cs else s5);
                   s7 = dropWhile is_space s6
               in Some (digits @ letter,
                        takeWhile (\<lambda>x. x \<noteq> CHR 0x0A) s7,
                        dropWhile (\<lambda>x. x \<noteq> CHR 0x0A) s7)))))"

record item_match =
  m_start :: nat
  m_end :: nat
  group1 :: string
  group2 :: string

function finditer :: "nat \<Rightarrow> bool \<Rightarrow> string \<Rightarrow> item_match list" where
  \<comment> \<open>\<open>pattern.finditer(text)\<close>: \<open>pos\<close> is the place reached in the text, \<open>bol\<close> tells
      whether it is the start of the text or follows a line break, and the third argument
      is the text from \<open>pos\<close> on\<close>
  "finditer pos bol [] = []"
| "finditer pos bol (c # cs) =
     (case (if bol then match_item (c # cs) else None) of
        None \<Rightarrow> finditer (Suc pos) (c = CHR 0x0A) cs
      | Some (g1, g2, rest) \<Rightarrow>
          if length rest < length (c # cs) then
            (let n = length (c # cs) - length rest in
             \<lparr>m_start = pos, m_end = pos + n, group1 = g1, group2 = g2\<rparr> #
             finditer (pos + n) ((c # cs) ! (n - 1) = CHR 0x0A) rest)
          else finditer (Suc pos) (c = CHR 0x0A) cs)"
  by pat_completeness auto
termination
  by (relation "measure (\<lambda>(pos, bol, s). length s)") auto

definition upper_char :: "char \<Rightarrow> char" where
  \<comment> \<open>\<open>str.upper\<close> on a digit or an ASCII letter, the only characters of an item
      identifier\<close>
  "upper_char c =
     (let n = (of_char c :: nat) in if 97 \<le> n \<and> n \<le> 122 then char_of (n - 32) else c)"

definition upper :: "string \<Rightarrow> string" where
  "upper s = map upper_char s"

type_synonym item_section = "string \<times> string \<times> string"

fun sections_of :: "string \<Rightarrow> item_match list \<Rightarrow> item_section list" where
  \<comment> \<open>the loop over the matches: the content of a section runs from the end of its
      header to the start of the next header, or to the end of the text\<close>
  "sections_of text [] = []"
| "sections_of text (m # ms) =
     (let item_id = upper (group1 m);
          title = strip (group2 m);
          start = m_end m;
          stop = (case ms of [] \<Rightarrow> length text | m1 # ms1 \<Rightarrow> m_start m1);
          content = strip (take (stop - start) (drop start text));
          content = re_sub (m_newlines 3) [CHR 0x0A, CHR 0x0A] content
      in (item_id, title, content) # sections_of text ms)"

definition find_sections :: "string \<Rightarrow> item_section list" where
  "find_sections text =
     (let matches = finditer 0 True text in
      if matches = [] then [] else sections_of text matches)"

section \<open>Segmenting a document (\<open>SectionExtractor.extract\<close>)\<close>

text \<open>
  What the file system holds at the path \<open>source\<close>: nothing, something that is not a
  regular file, or a file with its size in bytes and the text that
  \<open>read_text(errors="ignore")\<close> returns (an error when the file cannot be read).
\<close>

datatype source = Missing | NotAFile | File nat "error + string"

definition validate_source :: "source \<Rightarrow> error + unit" where
  "validate_source src =
     (case src of
        Missing \<Rightarrow> Inl ExtractionError
      | NotAFile \<Rightarrow> Inl ExtractionError
      | File st_size content \<Rightarrow> if st_size = 0 then Inl ExtractionError else Inr ())"

record sections_result =
  sections :: "(string \<times> string) list"
  index_file :: "string option"
  section_count :: nat
  files_written :: "string list"

fun dict_set :: "(string \<times> string) list \<Rightarrow> string \<Rightarrow> string \<Rightarrow> (string \<times> string) list" where
  \<comment> \<open>\<open>d[k] = v\<close> on the items of a dict\<close>
  "dict_set [] k v = [(k, v)]"
| "dict_set (kv # d) k v = (if fst kv = k then (k, v) # d else kv # dict_set d k v)"

fun write_sections ::
  "(string \<Rightarrow> string) \<Rightarrow> item_section list \<Rightarrow> (string \<times> string) list \<times> string list \<Rightarrow>
   (string \<times> string) list \<times> string list" where
  \<comment> \<open>the loop that writes one file per section; the state is \<open>section_files\<close> and the
      list of the paths written.  \<open>path name\<close> is \<open>str(output_dir / name)\<close>.\<close>
  "write_sections path [] st = st"
| "write_sections path (s # ss) st =
     (let md_path = path (''Item_'' @ fst s @ ''.md'')
      in write_sections path ss (dict_set (fst st) (fst s) md_path, snd st @ [md_path]))"

definition extract_sections ::
  "(string \<Rightarrow> string) \<Rightarrow> (string \<Rightarrow> string) \<Rightarrow> source \<Rightarrow> bool \<Rightarrow> bool \<Rightarrow>
   error + sections_result" where
  \<comment> \<open>\<open>dir_ok\<close> tells whether the output directory can be made, \<open>writable\<close> whether the
      output files can be written.  The text written into the files is not part of the
      model, only their paths are.  Every exception raised inside the \<open>try\<close> is raised
      again as \<open>ExtractionError\<close>.\<close>
  "extract_sections unescape path src dir_ok writable =
     (case validate_source src of
        Inl e \<Rightarrow> Inl e
      | Inr u \<Rightarrow>
          if \<not> dir_ok then Inl OSError
          else
            (case src of
               File st_size (Inr raw_html) \<Rightarrow>
                 (let text = html_to_text unescape raw_html;
                      found = find_sections text
                  in if found = [] then
                       Inr \<lparr>sections = [], index_file = None, section_count = 0,
                            files_written = []\<rparr>
                     else if \<not> writable then Inl ExtractionError
                     else
                       (let st = write_sections path found ([], []);
                            index_path = path ''sections_index.md''
                        in Inr \<lparr>sections = fst st, index_file = Some index_path,
                                section_count = length found,
                                files_written = snd st @ [index_path]\<rparr>))
             | _ \<Rightarrow> Inl ExtractionError))"

definition item_page :: string where
  \<comment> \<open>\<open><p>Item 1. Business</p>We sell.<br>ITEM 1A Risk Factors</p>None.\<close>\<close>
  "item_page = ''<p>Item 1. Business</p>We sell.<br>ITEM 1A Risk Factors</p>None.''"

definition script_page :: string where
  "script_page = ''<script>alert(1)</script><style>p {}</style>x''"

definition plain_page :: string where
  "plain_page = ''<p>No headers here</p>''"

section \<open>Properties of the table parser\<close>



lemma handle_tables:
  "tables (handle s e) = tables s \<or>
   (in_table_depth s = 1 \<and> in_table_depth (handle s e) = 0 \<and> is_table_tag e \<and>
    (\<exists>t. current_table s = Some t \<and> tables (handle s e) = tables s @ [t]))"
  by (cases e)
     (auto simp: handle_starttag_def handle_endtag_def handle_data_def Let_def
           split: option.splits)

lemma handle_other:
  assumes "\<not> is_table_tag e"
  shows "in_table_depth (handle s e) = in_table_depth s"
    and "tables (handle s e) = tables s"
    and "current_table s \<noteq> None \<Longrightarrow> current_table (handle s e) \<noteq> None"
  using assms
  by (cases e; auto simp: handle_starttag_def handle_endtag_def handle_data_def Let_def
           split: option.splits)+

lemma handle_open:
  assumes "lower tag = ''table''" and "0 < in_table_depth s"
  shows "handle s (StartTag tag) = s\<lparr>in_table_depth := in_table_depth s + 1\<rparr>"
  using assms by (simp add: handle_starttag_def)

lemma handle_close_nested:
  assumes "lower tag = ''table''" and "1 < in_table_depth s"
  shows "handle s (EndTag tag) = s\<lparr>in_table_depth := in_table_depth s - 1\<rparr>"
  using assms by (simp add: handle_endtag_def Let_def split: option.splits)

lemma feed_Cons: "feed s (e # evs) = feed (handle s e) evs"
  by (simp add: feed_def)

lemma feed_append: "feed s (xs @ ys) = feed (feed s xs) ys"
  by (simp add: feed_def)

lemma feed_balanced:
  assumes "balanced d evs" and "in_table_depth s = Suc d" and "current_table s \<noteq> None"
  shows "tables (feed s evs) = tables s \<and> in_table_depth (feed s evs) = 1 \<and>
         current_table (feed s evs) \<noteq> None"
  using assms
proof (induction evs arbitrary: d s)
  case Nil
  then show ?case by (simp add: feed_def)
next
  case (Cons e evs)
  show ?case
  proof (cases "is_table_tag e")
    case False
    then have b: "balanced d evs" using Cons.prems(1) by (cases e) auto
    from False Cons.prems have
      "in_table_depth (handle s e) = Suc d" "current_table (handle s e) \<noteq> None"
      "tables (handle s e) = tables s"
      by (simp_all add: handle_other)
    with Cons.IH[OF b] show ?thesis by (simp add: feed_Cons)
  next
    case True
    then show ?thesis
    proof (cases e)
      case (StartTag tag)
      with True have t: "lower tag = ''table''" by simp
      with Cons.prems StartTag have b: "balanced (Suc d) evs" by simp
      have h: "handle s e = s\<lparr>in_table_depth := Suc (Suc d)\<rparr>"
        using handle_open[OF t, of s] Cons.prems(2) unfolding StartTag by simp
      from Cons.IH[OF b, of "handle s e"] h Cons.prems show ?thesis
        by (simp add: feed_Cons)
    next
      case (EndTag tag)
      with True have t: "lower tag = ''table''" by simp
      with Cons.prems EndTag have b: "0 < d" "balanced (d - 1) evs" by simp_all
      have h: "handle s e = s\<lparr>in_table_depth := d\<rparr>"
        using handle_close_nested[OF t, of s] b(1) Cons.prems(2) unfolding EndTag by simp
      from b have "d = Suc (d - 1)" by simp
      with Cons.IH[OF b(2), of "handle s e"] h Cons.prems show ?thesis
        by (simp add: feed_Cons)
    next
      case (Data x)
      with True show ?thesis by simp
    qed
  qed
qed

text \<open>
  Claim C5.  A table whose content is any properly nested markup (tables inside its cells
  included) gives exactly one entry of the output: feeding the outer open tag, the content
  and the outer close tag appends exactly one table to \<open>tables\<close>.  A single handler
  call either leaves \<open>tables\<close> as it is or appends one table, and it appends only when
  the depth counter goes from 1 to 0.
\<close>

theorem outer_table_once:
  assumes "in_table_depth s = 0" and "lower a = ''table''" and "lower b = ''table''"
    and "balanced 0 mid"
  shows "(\<exists>t. tables (feed s (StartTag a # mid @ [EndTag b])) = tables s @ [t]) \<and>
         (tables (handle s' e) = tables s' \<or>
          (in_table_depth s' = 1 \<and> in_table_depth (handle s' e) = 0 \<and>
           (\<exists>t. tables (handle s' e) = tables s' @ [t])))"
proof
  let ?s1 = "handle s (StartTag a)"
  have s1: "in_table_depth ?s1 = Suc 0" "current_table ?s1 \<noteq> None" "tables ?s1 = tables s"
    using assms(1,2) by (simp_all add: handle_starttag_def)
  let ?s2 = "feed ?s1 mid"
  from feed_balanced[OF assms(4) s1(1) s1(2)] s1(3)
  have s2: "tables ?s2 = tables s" "in_table_depth ?s2 = 1" "current_table ?s2 \<noteq> None"
    by simp_all
  then obtain t where t: "current_table ?s2 = Some t" by auto
  have "tables (handle ?s2 (EndTag b)) = tables s @ [t]"
    using s2 t assms(3) by (simp add: handle_endtag_def)
  then show "\<exists>t. tables (feed s (StartTag a # mid @ [EndTag b])) = tables s @ [t]"
    by (auto simp: feed_Cons feed_append feed_def)
next
  show "tables (handle s' e) = tables s' \<or>
          (in_table_depth s' = 1 \<and> in_table_depth (handle s' e) = 0 \<and>
           (\<exists>t. tables (handle s' e) = tables s' @ [t]))"
    using handle_tables[of s' e] by blast
qed

theorem outer_table_once_witness:
  "in_table_depth parser_init = 0 \<and> lower ''table'' = ''table'' \<and>
   lower ''TABLE'' = ''table'' \<and> balanced 0 nested_inner \<and>
   (\<exists>t. tables (feed parser_init (StartTag ''table'' # nested_inner @ [EndTag ''TABLE''])) =
      tables parser_init @ [t]) \<and>
   tables (handle (feed parser_init (StartTag ''table'' # nested_inner)) (EndTag ''TABLE'')) \<noteq>
     tables (feed parser_init (StartTag ''table'' # nested_inner)) \<and>
   in_table_depth (feed parser_init (StartTag ''table'' # nested_inner)) = 1"
proof -
  let ?s = "feed parser_init (StartTag ''table'' # nested_inner)"
  have h1: "in_table_depth parser_init = 0" by code_simp
  have h2: "lower ''table'' = ''table''" by code_simp
  have h3: "lower ''TABLE'' = ''table''" by code_simp
  have h4: "balanced 0 nested_inner" by code_simp
  have n: "tables (handle ?s (EndTag ''TABLE'')) \<noteq> tables ?s" by code_simp
  from outer_table_once[OF h1 h2 h3 h4, of ?s "EndTag ''TABLE''"] n h1 h2 h3 h4
  show ?thesis by blast
qed

lemma handle_depth_irrelevant:
  assumes "\<not> is_table_tag e" and "0 < in_table_depth s" and "0 < d"
  shows "handle (s\<lparr>in_table_depth := d\<rparr>) e = (handle s e)\<lparr>in_table_depth := d\<rparr>"
  using assms
  by (cases e)
     (auto simp: handle_starttag_def handle_endtag_def handle_data_def Let_def
           split: option.splits)

text \<open>
  Claim C2, as amended.  Inside a table, a further table-open tag only increments the depth
  counter.  Tags and text that are not table tags are handled in the same way at every
  depth of at least 1: the run from depth \<open>d\<close> is the run from the depth of \<open>s\<close> with
  the counter replaced.  So the rows and cells of a nested table go into the row and the
  table being accumulated, the outer one.
\<close>

theorem nested_rows_merged:
  assumes "\<forall>e \<in> set evs. \<not> is_table_tag e" and "0 < in_table_depth s" and "0 < d"
    and "lower tag = ''table''"
  shows "handle s (StartTag tag) = s\<lparr>in_table_depth := in_table_depth s + 1\<rparr> \<and>
         feed (s\<lparr>in_table_depth := d\<rparr>) evs = (feed s evs)\<lparr>in_table_depth := d\<rparr>"
proof
  show "handle s (StartTag tag) = s\<lparr>in_table_depth := in_table_depth s + 1\<rparr>"
    using assms(2,4) by (rule handle_open[rotated])
  show "feed (s\<lparr>in_table_depth := d\<rparr>) evs = (feed s evs)\<lparr>in_table_depth := d\<rparr>"
    using assms(1,2)
  proof (induction evs arbitrary: s)
    case Nil
    then show ?case by (simp add: feed_def)
  next
    case (Cons e evs)
    then have e: "\<not> is_table_tag e" by simp
    have d: "0 < in_table_depth (handle s e)"
      using e Cons.prems(2) by (simp add: handle_other)
    show ?case
      using Cons.IH[OF _ d] Cons.prems(1) handle_depth_irrelevant[OF e Cons.prems(2) assms(3)]
      by (simp add: feed_Cons)
  qed
qed

text \<open>
  The row of the nested table is a row of the outer table in the output, and the cell
  \<open>A\<close> of the outer row is lost, since the nested \<open>tr\<close> starts a new row.
\<close>

theorem nested_rows_counterexample:
  "parse_tables nested_example = [[[''X'']]]"
  by code_simp

theorem nested_rows_merged_witness:
  "list_all (\<lambda>e. \<not> is_table_tag e)
      [StartTag ''tr'', StartTag ''td'', Data ''X'', EndTag ''td'', EndTag ''tr''] \<and>
   0 < in_table_depth (feed parser_init [StartTag ''table'']) \<and> 0 < (2::nat) \<and>
   lower ''TABLE'' = ''table'' \<and>
   handle (feed parser_init [StartTag ''table'']) (StartTag ''TABLE'') =
     (feed parser_init [StartTag ''table''])\<lparr>in_table_depth := 2\<rparr> \<and>
   current_table (feed ((feed parser_init [StartTag ''table''])\<lparr>in_table_depth := 2\<rparr>)
      [StartTag ''tr'', StartTag ''td'', Data ''X'', EndTag ''td'', EndTag ''tr'']) =
     Some [[''X'']]"
proof -
  let ?s = "feed parser_init [StartTag ''table'']"
  let ?evs = "[StartTag ''tr'', StartTag ''td'', Data ''X'', EndTag ''td'', EndTag ''tr'']"
  have h1: "\<forall>e \<in> set ?evs. \<not> is_table_tag e" by code_simp
  have h2: "0 < in_table_depth ?s" by code_simp
  have h3: "0 < (2::nat)" by simp
  have h4: "lower ''TABLE'' = ''table''" by code_simp
  have d: "in_table_depth ?s + 1 = 2" by code_simp
  have c: "current_table ((feed ?s ?evs)\<lparr>in_table_depth := 2\<rparr>) = Some [[''X'']]"
    by code_simp
  have l: "list_all (\<lambda>e. \<not> is_table_tag e) ?evs" by code_simp
  from nested_rows_merged[OF h1 h2 h3 h4] l h2 h3 h4 d c show ?thesis by simp
qed

lemma filter_loop_take:
  assumes "int (length acc) < max_tables"
  shows "filter_loop min_columns max_tables acc ts =
         take (nat max_tables) (acc @ filter (\<lambda>t. min_columns \<le> int (max_cols t)) ts)"
  using assms
proof (induction ts arbitrary: acc)
  case Nil
  then show ?case by simp
next
  case (Cons t ts)
  show ?case
  proof (cases "min_columns \<le> int (max_cols t)")
    case False
    with Cons show ?thesis by simp
  next
    case True
    show ?thesis
    proof (cases "int (length (acc @ [t])) \<ge> max_tables")
      case True
      with Cons.prems have "nat max_tables = length (acc @ [t])" by simp
      with True \<open>min_columns \<le> int (max_cols t)\<close> show ?thesis by simp
    next
      case False
      then have "int (length (acc @ [t])) < max_tables" by simp
      from Cons.IH[OF this] False \<open>min_columns \<le> int (max_cols t)\<close> show ?thesis by simp
    qed
  qed
qed

lemma filter_tables_take:
  "1 \<le> max_tables \<Longrightarrow>
   filter_tables ts min_columns max_tables =
   take (nat max_tables) (filter (\<lambda>t. min_columns \<le> int (max_cols t)) ts)"
  unfolding filter_tables_def by (subst filter_loop_take) simp_all

text \<open>
  Claim C8.  With \<open>max_tables = 0\<close> the limit is reached before the first table, yet the
  loop tests it only after a table has been handled: a first table that is wide enough is
  retained.  For \<open>max_tables \<ge> 1\<close> the result is the first \<open>max_tables\<close> tables of
  width at least \<open>min_columns\<close> (lemma \<open>filter_tables_take\<close>).
\<close>

theorem max_tables_zero_retains_one:
  "filter_tables [[[''A'', ''B'']]] 2 0 = [[[''A'', ''B'']]]"
  by code_simp


section \<open>Properties of the series of one unit\<close>

lemma series_get_set:
  "series_get (series_set s k e) k' =
     (if key_norm k = key_norm k' then Some e else series_get s k')"
  by (induction s) auto

lemma str_series_set:
  "str_series s \<Longrightarrow> str_series (series_set s (JStr d) (v, JStr f))"
  by (induction s) (auto simp: str_series_def)

lemma str_series_get:
  "str_series s \<Longrightarrow> series_get s k = Some (v, f) \<Longrightarrow> is_str f"
  by (induction s) (auto simp: str_series_def split: if_splits)

lemma is_str_the_str: "is_str x \<Longrightarrow> JStr (the_str x) = x"
  by (cases x) auto

lemma wf_obs_date:
  assumes "wf_obs (JDict kvs)"
  shows "py_or (py_or (item kvs ''end'' JNull) (item kvs ''instant'' JNull))
               (item kvs ''filed'' JNull) =
         (if obs_date (JDict kvs) = [] then
            py_or (py_or (item kvs ''end'' JNull) (item kvs ''instant'' JNull))
               (item kvs ''filed'' JNull)
          else JStr (obs_date (JDict kvs)))"
    and "truthy (py_or (py_or (item kvs ''end'' JNull) (item kvs ''instant'' JNull))
               (item kvs ''filed'' JNull)) = (obs_date (JDict kvs) \<noteq> [])"
proof -
  let ?e = "item kvs ''end'' JNull" and ?i = "item kvs ''instant'' JNull"
  let ?f = "item kvs ''filed'' JNull"
  have e: "str_or_null ?e" and i: "str_or_null ?i" and f: "is_str (item kvs ''filed'' (JStr []))"
    using assms by (simp_all add: wf_obs_def)
  have f': "str_or_null ?f"
    using f by (cases "map_of kvs ''filed''") (auto simp: item_def elim: is_str.elims)
  have "\<And>x. str_or_null x \<Longrightarrow> truthy x = (the_str x \<noteq> []) \<and> (the_str x \<noteq> [] \<longrightarrow> x = JStr (the_str x))"
    by (erule str_or_null.elims) auto
  note t = this
  show "truthy (py_or (py_or ?e ?i) ?f) = (obs_date (JDict kvs) \<noteq> [])"
    using t[OF e] t[OF i] t[OF f'] by (auto simp: obs_date_def py_or_def)
  show "py_or (py_or ?e ?i) ?f =
         (if obs_date (JDict kvs) = [] then py_or (py_or ?e ?i) ?f
          else JStr (obs_date (JDict kvs)))"
    using t[OF e] t[OF i] t[OF f'] by (auto simp: obs_date_def py_or_def)
qed

lemma parse_obs_wf:
  assumes "wf_obs ob" and "str_series s"
  shows "parse_obs s ob =
     Inr (if obs_date ob = [] then s
          else (case series_get s (JStr (obs_date ob)) of
                  None \<Rightarrow> series_set s (JStr (obs_date ob)) (obs_val ob, JStr (obs_filed ob))
                | Some e \<Rightarrow>
                    if the_str (snd e) < obs_filed ob
                    then series_set s (JStr (obs_date ob)) (obs_val ob, JStr (obs_filed ob))
                    else s))"
proof -
  from assms(1) obtain kvs where ob: "ob = JDict kvs"
    by (cases ob) (auto simp: wf_obs_def)
  have f: "is_str (item kvs ''filed'' (JStr []))"
    using assms(1) by (simp add: wf_obs_def ob)
  then have fs: "item kvs ''filed'' (JStr []) = JStr (obs_filed ob)"
    by (simp add: obs_filed_def ob is_str_the_str)
  show ?thesis
  proof (cases "obs_date ob = []")
    case True
    then show ?thesis
      using wf_obs_date(2)[OF assms(1)[unfolded ob]]
      by (simp add: parse_obs_def ob Let_def)
  next
    case False
    then have d: "py_or (py_or (item kvs ''end'' JNull) (item kvs ''instant'' JNull))
               (item kvs ''filed'' JNull) = JStr (obs_date ob)"
      using wf_obs_date(1)[OF assms(1)[unfolded ob]] by (simp add: ob)
    show ?thesis
    proof (cases "series_get s (JStr (obs_date ob))")
      case None
      then show ?thesis
        using False d fs by (simp add: parse_obs_def ob Let_def obs_val_def)
    next
      case (Some e)
      then have "is_str (snd e)" using str_series_get[OF assms(2), of _ "fst e" "snd e"] by simp
      then obtain f0 where f0: "snd e = JStr f0" by (cases "snd e") auto
      show ?thesis
        using False d fs Some f0
        by (auto simp: parse_obs_def ob Let_def obs_val_def)
    qed
  qed
qed

lemma parse_loop_append:
  "parse_loop s (xs @ ys) = (case parse_loop s xs of Inl e \<Rightarrow> Inl e | Inr s1 \<Rightarrow> parse_loop s1 ys)"
  by (induction xs arbitrary: s) (auto split: sum.splits)

lemma first_latest_snoc_other:
  assumes "first_latest os d pre w post" and "obs_date ob = d \<longrightarrow> obs_filed ob \<le> obs_filed w"
  shows "first_latest (os @ [ob]) d pre w (post @ [ob])"
  using assms by (simp add: first_latest_def)

lemma first_latest_snoc_new:
  assumes "first_latest os d pre w post" and "obs_date ob = d" and "obs_filed w < obs_filed ob"
  shows "first_latest (os @ [ob]) d os ob []"
  using assms by (fastforce simp: first_latest_def list_all_iff)

lemma first_latest_first:
  assumes "\<forall>x \<in> set os. obs_date x \<noteq> obs_date ob"
  shows "first_latest (os @ [ob]) (obs_date ob) os ob []"
  using assms by (simp add: first_latest_def list_all_iff)

lemma resolved_step:
  assumes wf: "wf_obs ob" and ss: "str_series s" and r: "resolved os s d" and d: "d \<noteq> []"
    and p: "parse_obs s ob = Inr s1"
  shows "resolved (os @ [ob]) s1 d"
proof (cases "obs_date ob = d")
  case False
  have "series_get s1 (JStr d) = series_get s (JStr d)"
    using p False unfolding parse_obs_wf[OF wf ss]
    by (auto simp: series_get_set split: option.splits if_splits)
  with r False show ?thesis
    by (auto simp: resolved_def split: option.splits intro!: first_latest_snoc_other)
next
  case True
  show ?thesis
  proof (cases "series_get s (JStr d)")
    case None
    then have "s1 = series_set s (JStr d) (obs_val ob, JStr (obs_filed ob))"
      using p True d unfolding parse_obs_wf[OF wf ss] by simp
    moreover have "first_latest (os @ [ob]) d os ob []"
      using first_latest_first[of os ob] r None True by (simp add: resolved_def)
    ultimately show ?thesis by (auto simp: resolved_def series_get_set)
  next
    case (Some e)
    with r obtain pre w post where w: "first_latest os d pre w post"
      and e: "e = (obs_val w, JStr (obs_filed w))"
      by (auto simp: resolved_def)
    show ?thesis
    proof (cases "obs_filed w < obs_filed ob")
      case True
      then have "s1 = series_set s (JStr d) (obs_val ob, JStr (obs_filed ob))"
        using p \<open>obs_date ob = d\<close> d Some e unfolding parse_obs_wf[OF wf ss] by simp
      moreover have "first_latest (os @ [ob]) d os ob []"
        using first_latest_snoc_new[OF w \<open>obs_date ob = d\<close> True] .
      ultimately show ?thesis by (auto simp: resolved_def series_get_set)
    next
      case False
      then have "s1 = s"
        using p \<open>obs_date ob = d\<close> d Some e unfolding parse_obs_wf[OF wf ss] by simp
      moreover have "first_latest (os @ [ob]) d pre w (post @ [ob])"
        by (rule first_latest_snoc_other[OF w]) (use False in auto)
      ultimately show ?thesis using Some e by (auto simp: resolved_def)
    qed
  qed
qed

lemma parse_obs_str_series:
  assumes "wf_obs ob" and "str_series s" and "parse_obs s ob = Inr s1"
  shows "str_series s1"
  using assms(2,3) unfolding parse_obs_wf[OF assms(1,2)]
  by (auto simp: str_series_set split: if_splits option.splits)

lemma parse_obs_no_empty_key:
  assumes "wf_obs ob" and "str_series s" and "parse_obs s ob = Inr s1"
    and "series_get s (JStr []) = None"
  shows "series_get s1 (JStr []) = None"
  using assms(3,4) unfolding parse_obs_wf[OF assms(1,2)]
  by (auto simp: series_get_set split: if_splits option.splits)

lemma parse_loop_resolved:
  assumes "list_all wf_obs os"
  shows "\<exists>s. parse_loop [] os = Inr s \<and> str_series s \<and> series_get s (JStr []) = None \<and>
             (\<forall>d. d \<noteq> [] \<longrightarrow> resolved os s d)"
  using assms
proof (induction os rule: rev_induct)
  case Nil
  then show ?case by (simp add: str_series_def resolved_def)
next
  case (snoc ob os)
  then obtain s where s: "parse_loop [] os = Inr s" "str_series s"
    "series_get s (JStr []) = None" "\<forall>d. d \<noteq> [] \<longrightarrow> resolved os s d"
    by auto
  from snoc.prems have wf: "wf_obs ob" by simp
  obtain s1 where s1: "parse_obs s ob = Inr s1"
    using parse_obs_wf[OF wf s(2)] by simp
  have "parse_loop [] (os @ [ob]) = Inr s1"
    using s(1) s1 by (simp add: parse_loop_append)
  moreover have "str_series s1" using parse_obs_str_series[OF wf s(2) s1] .
  moreover have "series_get s1 (JStr []) = None"
    using parse_obs_no_empty_key[OF wf s(2) s1 s(3)] .
  moreover have "\<forall>d. d \<noteq> [] \<longrightarrow> resolved (os @ [ob]) s1 d"
    using resolved_step[OF wf s(2) _ _ s1] s(4) by blast
  ultimately show ?case by blast
qed

lemma wf_obs_filed:
  assumes "wf_obs (JDict kvs)"
  shows "item kvs ''filed'' (JStr []) = JStr (obs_filed (JDict kvs))"
proof -
  have "is_str (item kvs ''filed'' (JStr []))"
    using assms by (simp add: wf_obs_def)
  then show ?thesis by (simp add: obs_filed_def is_str_the_str)
qed

lemma parse_obs_existing:
  assumes "wf_obs ob" and "obs_date ob \<noteq> []"
    and "series_get s (JStr (obs_date ob)) = Some (v, JStr f)"
  shows "parse_obs s ob =
         Inr (if obs_filed ob \<noteq> [] \<and> f < obs_filed ob
              then series_set s (JStr (obs_date ob)) (obs_val ob, JStr (obs_filed ob))
              else s)"
proof -
  from assms(1) obtain kvs where ob: "ob = JDict kvs"
    by (cases ob) (auto simp: wf_obs_def)
  have fs: "item kvs ''filed'' (JStr []) = JStr (obs_filed ob)"
    using wf_obs_filed assms(1) unfolding ob by simp
  have d: "py_or (py_or (item kvs ''end'' JNull) (item kvs ''instant'' JNull))
               (item kvs ''filed'' JNull) = JStr (obs_date ob)"
    using wf_obs_date(1)[OF assms(1)[unfolded ob]] assms(2) by (simp add: ob)
  show ?thesis
    using assms(2,3) d fs by (auto simp: parse_obs_def ob Let_def obs_val_def)
qed

lemma parse_obs_empty_filed:
  assumes "wf_obs ob" and "obs_filed ob = []" and "series_get s (JStr (obs_date ob)) \<noteq> None"
  shows "parse_obs s ob = Inr s"
proof -
  from assms(1) obtain kvs where ob: "ob = JDict kvs"
    by (cases ob) (auto simp: wf_obs_def)
  have fs: "item kvs ''filed'' (JStr []) = JStr []"
    using wf_obs_filed[of kvs] assms(1,2) unfolding ob by simp
  show ?thesis
  proof (cases "obs_date ob = []")
    case True
    then show ?thesis
      using wf_obs_date(2)[OF assms(1)[unfolded ob]]
      by (simp add: parse_obs_def ob Let_def)
  next
    case False
    then have d: "py_or (py_or (item kvs ''end'' JNull) (item kvs ''instant'' JNull))
               (item kvs ''filed'' JNull) = JStr (obs_date ob)"
      using wf_obs_date(1)[OF assms(1)[unfolded ob]] by (simp add: ob)
    from assms(3) obtain e where "series_get s (JStr (obs_date ob)) = Some e" by auto
    then show ?thesis
      using False d fs by (simp add: parse_obs_def ob Let_def)
  qed
qed

lemma first_latest_greatest:
  assumes "first_latest os d pre w post"
  shows "w \<in> set os \<and> obs_date w = d \<and>
         (\<forall>x \<in> set os. obs_date x = d \<longrightarrow> obs_filed x \<le> obs_filed w)"
  using assms by (auto simp: first_latest_def list_all_iff)

lemma parse_unit_series_resolved:
  assumes "list_all wf_obs os"
  shows "\<exists>s. parse_unit_series (JList os) = Inr s \<and> str_series s \<and>
             series_get s (JStr []) = None \<and> (\<forall>d. d \<noteq> [] \<longrightarrow> resolved os s d)"
  using parse_loop_resolved[OF assms] by (simp add: parse_unit_series_def)

text \<open>
  Observations whose filed date is a string or is absent.  For a list of such records the
  series has an entry for a date exactly when some observation has that date key, and the
  entry is the value and the filed date of an observation of that date whose filed date is
  the greatest, as strings, among the observations of that date.  For filed dates
  \<open>2023-01-10\<close> and \<open>2023-02-15\<close> with values 100 and 120 the entry holds 120.  An
  observation with an empty filed date leaves a series that has an entry for its date
  as it is.
\<close>

lemma latest_filed_wins:
  assumes "list_all wf_obs os"
  shows "(\<exists>s. parse_unit_series (JList os) = Inr s \<and>
           (\<forall>d. d \<noteq> [] \<longrightarrow>
              (case series_get s (JStr d) of
                 None \<Rightarrow> \<forall>x \<in> set os. obs_date x \<noteq> d
               | Some e \<Rightarrow>
                   \<exists>w \<in> set os. obs_date w = d \<and> e = (obs_val w, JStr (obs_filed w)) \<and>
                     (\<forall>x \<in> set os. obs_date x = d \<longrightarrow> obs_filed x \<le> obs_filed w)))) \<and>
         parse_unit_series (JList revised_pair) =
           Inr [(JStr ''2023-12-31'', JInt 120, JStr ''2023-02-15'')] \<and>
         (wf_obs ob \<and> obs_filed ob = [] \<and> series_get s0 (JStr (obs_date ob)) \<noteq> None \<longrightarrow>
            parse_obs s0 ob = Inr s0)"
proof (intro conjI)
  from parse_unit_series_resolved[OF assms] obtain s where
    s: "parse_unit_series (JList os) = Inr s" "\<forall>d. d \<noteq> [] \<longrightarrow> resolved os s d"
    by blast
  have "case series_get s (JStr d) of
          None \<Rightarrow> \<forall>x \<in> set os. obs_date x \<noteq> d
        | Some e \<Rightarrow>
            \<exists>w \<in> set os. obs_date w = d \<and> e = (obs_val w, JStr (obs_filed w)) \<and>
              (\<forall>x \<in> set os. obs_date x = d \<longrightarrow> obs_filed x \<le> obs_filed w)"
    if "d \<noteq> []" for d
  proof -
    from s(2) that have r: "resolved os s d" by blast
    show ?thesis
    proof (cases "series_get s (JStr d)")
      case None
      with r show ?thesis by (simp add: resolved_def)
    next
      case (Some e)
      with r obtain pre w post where "first_latest os d pre w post"
        and "e = (obs_val w, JStr (obs_filed w))"
        by (auto simp: resolved_def)
      with first_latest_greatest[of os d pre w post] Some show ?thesis by auto
    qed
  qed
  with s(1) show "\<exists>s. parse_unit_series (JList os) = Inr s \<and>
           (\<forall>d. d \<noteq> [] \<longrightarrow>
              (case series_get s (JStr d) of
                 None \<Rightarrow> \<forall>x \<in> set os. obs_date x \<noteq> d
               | Some e \<Rightarrow>
                   \<exists>w \<in> set os. obs_date w = d \<and> e = (obs_val w, JStr (obs_filed w)) \<and>
                     (\<forall>x \<in> set os. obs_date x = d \<longrightarrow> obs_filed x \<le> obs_filed w)))"
    by blast
  show "parse_unit_series (JList revised_pair) =
           Inr [(JStr ''2023-12-31'', JInt 120, JStr ''2023-02-15'')]"
    by code_simp
  show "wf_obs ob \<and> obs_filed ob = [] \<and> series_get s0 (JStr (obs_date ob)) \<noteq> None \<longrightarrow>
            parse_obs s0 ob = Inr s0"
    using parse_obs_empty_filed by blast
qed

lemma latest_filed_wins_witness:
  "list_all wf_obs revised_pair \<and>
   (\<exists>s. parse_unit_series (JList revised_pair) = Inr s \<and>
      (\<exists>w \<in> set revised_pair. obs_date w = ''2023-12-31'' \<and>
         series_get s (JStr ''2023-12-31'') = Some (obs_val w, JStr (obs_filed w)) \<and>
         (\<forall>x \<in> set revised_pair. obs_date x = ''2023-12-31'' \<longrightarrow> obs_filed x \<le> obs_filed w))) \<and>
   wf_obs no_filed \<and> obs_filed no_filed = [] \<and>
   series_get [(JStr ''2023-12-31'', JInt 120, JStr ''2023-02-15'')] (JStr (obs_date no_filed)) \<noteq> None \<and>
   parse_obs [(JStr ''2023-12-31'', JInt 120, JStr ''2023-02-15'')] no_filed =
     Inr [(JStr ''2023-12-31'', JInt 120, JStr ''2023-02-15'')]"
proof -
  let ?s0 = "[(JStr ''2023-12-31'', JInt 120, JStr ''2023-02-15'')]"
  have h: "list_all wf_obs revised_pair" by code_simp
  have h1: "wf_obs no_filed" by code_simp
  have h2: "obs_filed no_filed = []" by code_simp
  have h3: "series_get ?s0 (JStr (obs_date no_filed)) \<noteq> None" by code_simp
  note t = latest_filed_wins[OF h, of no_filed ?s0]
  from t obtain s where s: "parse_unit_series (JList revised_pair) = Inr s"
    and r: "\<forall>d. d \<noteq> [] \<longrightarrow>
              (case series_get s (JStr d) of
                 None \<Rightarrow> \<forall>x \<in> set revised_pair. obs_date x \<noteq> d
               | Some e \<Rightarrow>
                   \<exists>w \<in> set revised_pair. obs_date w = d \<and> e = (obs_val w, JStr (obs_filed w)) \<and>
                     (\<forall>x \<in> set revised_pair. obs_date x = d \<longrightarrow> obs_filed x \<le> obs_filed w))"
    by blast
  have s': "s = ?s0" using s t by simp
  have g: "series_get ?s0 (JStr ''2023-12-31'') = Some (JInt 120, JStr ''2023-02-15'')"
    by code_simp
  from r[rule_format, of "''2023-12-31''"] g
  have "\<exists>w \<in> set revised_pair. obs_date w = ''2023-12-31'' \<and>
         series_get s (JStr ''2023-12-31'') = Some (obs_val w, JStr (obs_filed w)) \<and>
         (\<forall>x \<in> set revised_pair. obs_date x = ''2023-12-31'' \<longrightarrow> obs_filed x \<le> obs_filed w)"
    unfolding s' by simp
  with s t h h1 h2 h3 show ?thesis by blast
qed

text \<open>
  Claim C1.  An observation without a filed date is not always superseded by a later-listed
  observation of the same date that has one.  When the filed date is missing because the
  key is absent, the default \<open>""\<close> is stored and the observation with a filed date
  replaces the entry.  When the record holds \<open>"filed": null\<close>, the default is not used:
  the null is stored with the value, and the comparison \<open>filed > existing[1]\<close> of the
  next observation of that date raises \<open>TypeError\<close>, so no series is returned.  For
  observations whose filed dates are strings or absent the claim holds
  (lemma \<open>latest_filed_wins\<close>).
\<close>

theorem null_filed_raises:
  "parse_unit_series (JList null_filed_pair) = Inl TypeError \<and>
   parse_unit_series (JList absent_filed_pair) =
     Inr [(JStr ''2023-12-31'', JInt 120, JStr ''2024-01-01'')]"
  by code_simp

text \<open>
  Claim C10.  When the series has an entry for the date of an observation, the entry is
  replaced exactly when the filed date of the observation is not empty and strictly
  greater than the retained one; with an equal filed date the series stays as it is.  Over
  the whole list, the retained observation of a date is the first, in list order, of those
  with the greatest filed date: every earlier observation of that date has a strictly
  smaller filed date.
\<close>

theorem equal_filed_keeps_first:
  assumes "wf_obs ob" and "obs_date ob \<noteq> []"
    and "series_get s (JStr (obs_date ob)) = Some (v, JStr f)"
    and "list_all wf_obs os"
  shows "parse_obs s ob =
           Inr (if obs_filed ob \<noteq> [] \<and> f < obs_filed ob
                then series_set s (JStr (obs_date ob)) (obs_val ob, JStr (obs_filed ob))
                else s) \<and>
         (obs_filed ob = f \<longrightarrow> parse_obs s ob = Inr s) \<and>
         (\<exists>s1. parse_unit_series (JList os) = Inr s1 \<and>
            (\<forall>d. d \<noteq> [] \<longrightarrow>
               (case series_get s1 (JStr d) of
                  None \<Rightarrow> \<forall>x \<in> set os. obs_date x \<noteq> d
                | Some e \<Rightarrow>
                    \<exists>pre w post. os = pre @ w # post \<and> obs_date w = d \<and>
                      e = (obs_val w, JStr (obs_filed w)) \<and>
                      (\<forall>x \<in> set pre. obs_date x = d \<longrightarrow> obs_filed x < obs_filed w) \<and>
                      (\<forall>x \<in> set post. obs_date x = d \<longrightarrow> obs_filed x \<le> obs_filed w))))"
proof (intro conjI)
  show p: "parse_obs s ob =
           Inr (if obs_filed ob \<noteq> [] \<and> f < obs_filed ob
                then series_set s (JStr (obs_date ob)) (obs_val ob, JStr (obs_filed ob))
                else s)"
    using parse_obs_existing[OF assms(1,2,3)] .
  show "obs_filed ob = f \<longrightarrow> parse_obs s ob = Inr s"
    using p by simp
  from parse_unit_series_resolved[OF assms(4)] obtain s1 where
    s1: "parse_unit_series (JList os) = Inr s1" "\<forall>d. d \<noteq> [] \<longrightarrow> resolved os s1 d"
    by blast
  have "case series_get s1 (JStr d) of
                  None \<Rightarrow> \<forall>x \<in> set os. obs_date x \<noteq> d
                | Some e \<Rightarrow>
                    \<exists>pre w post. os = pre @ w # post \<and> obs_date w = d \<and>
                      e = (obs_val w, JStr (obs_filed w)) \<and>
                      (\<forall>x \<in> set pre. obs_date x = d \<longrightarrow> obs_filed x < obs_filed w) \<and>
                      (\<forall>x \<in> set post. obs_date x = d \<longrightarrow> obs_filed x \<le> obs_filed w)"
    if "d \<noteq> []" for d
  proof -
    from s1(2) that have r: "resolved os s1 d" by blast
    show ?thesis
    proof (cases "series_get s1 (JStr d)")
      case None
      with r show ?thesis by (simp add: resolved_def)
    next
      case (Some e)
      with r obtain pre w post where "first_latest os d pre w post"
        and "e = (obs_val w, JStr (obs_filed w))"
        by (auto simp: resolved_def)
      then have "os = pre @ w # post \<and> obs_date w = d \<and>
                      e = (obs_val w, JStr (obs_filed w)) \<and>
                      (\<forall>x \<in> set pre. obs_date x = d \<longrightarrow> obs_filed x < obs_filed w) \<and>
                      (\<forall>x \<in> set post. obs_date x = d \<longrightarrow> obs_filed x \<le> obs_filed w)"
        by (simp add: first_latest_def list_all_iff)
      then show ?thesis using Some by (simp del: append_eq_append_conv2) blast
    qed
  qed
  with s1(1) show "\<exists>s1. parse_unit_series (JList os) = Inr s1 \<and>
            (\<forall>d. d \<noteq> [] \<longrightarrow>
               (case series_get s1 (JStr d) of
                  None \<Rightarrow> \<forall>x \<in> set os. obs_date x \<noteq> d
                | Some e \<Rightarrow>
                    \<exists>pre w post. os = pre @ w # post \<and> obs_date w = d \<and>
                      e = (obs_val w, JStr (obs_filed w)) \<and>
                      (\<forall>x \<in> set pre. obs_date x = d \<longrightarrow> obs_filed x < obs_filed w) \<and>
                      (\<forall>x \<in> set post. obs_date x = d \<longrightarrow> obs_filed x \<le> obs_filed w)))"
    by blast
qed

theorem equal_filed_keeps_first_witness:
  "wf_obs (obs ''2023-12-31'' ''2024-02-01'' 2) \<and>
   obs_date (obs ''2023-12-31'' ''2024-02-01'' 2) \<noteq> [] \<and>
   series_get [(JStr ''2023-12-31'', JInt 1, JStr ''2024-02-01'')]
     (JStr (obs_date (obs ''2023-12-31'' ''2024-02-01'' 2))) = Some (JInt 1, JStr ''2024-02-01'') \<and>
   list_all wf_obs same_filed_pair \<and>
   obs_filed (obs ''2023-12-31'' ''2024-02-01'' 2) = ''2024-02-01'' \<and>
   parse_obs [(JStr ''2023-12-31'', JInt 1, JStr ''2024-02-01'')]
     (obs ''2023-12-31'' ''2024-02-01'' 2) = Inr [(JStr ''2023-12-31'', JInt 1, JStr ''2024-02-01'')] \<and>
   parse_unit_series (JList same_filed_pair) =
     Inr [(JStr ''2023-12-31'', JInt 1, JStr ''2024-02-01'')]"
proof -
  let ?ob = "obs ''2023-12-31'' ''2024-02-01'' 2"
  let ?s = "[(JStr ''2023-12-31'', JInt 1, JStr ''2024-02-01'')]"
  have h1: "wf_obs ?ob" by code_simp
  have h2: "obs_date ?ob \<noteq> []" by code_simp
  have h3: "series_get ?s (JStr (obs_date ?ob)) = Some (JInt 1, JStr ''2024-02-01'')"
    by code_simp
  have h4: "list_all wf_obs same_filed_pair" by code_simp
  have h5: "obs_filed ?ob = ''2024-02-01''" by code_simp
  have c: "parse_unit_series (JList same_filed_pair) = Inr ?s" by code_simp
  from equal_filed_keeps_first[OF h1 h2 h3 h4] h5
  have "parse_obs ?s ?ob = Inr ?s" by blast
  with h1 h2 h3 h4 h5 c show ?thesis by blast
qed

section \<open>Properties of the series of a fact\<close>

lemma try_preferred_dict:
  "try_preferred (JDict units) pu =
     (case find (\<lambda>u. u \<in> set (map fst units)) pu of
        Some u \<Rightarrow>
          (case map_of units u of Some d \<Rightarrow> parse_unit_series d | None \<Rightarrow> Inl KeyError)
      | None \<Rightarrow> try_any (map snd units))"
  by (induction pu) (auto split: option.splits)

lemma try_any_first:
  assumes "list_all (\<lambda>y. parse_unit_series y = Inr []) pre"
    and "parse_unit_series x = Inr s" and "s \<noteq> []"
  shows "try_any (pre @ x # post) = Inr s"
  using assms by (induction pre) auto

lemma try_any_none:
  assumes "list_all (\<lambda>y. parse_unit_series y = Inr []) ys"
  shows "try_any ys = Inr []"
  using assms by (induction ys) auto

lemma find_none_iff_list_all: "(find P xs = None) = list_all (\<lambda>x. \<not> P x) xs"
  by (induction xs) auto

text \<open>
  Claim C6.  Let the units of the fact be a mapping.  When some preferred unit is a key of
  it, the series of the fact is the series of the data of the first such unit in the
  order of the preference list, whatever the other units hold.  When no preferred unit is
  a key, the series is the one of the first unit, in the order of the mapping, whose
  series is not empty (the units before it giving an empty series), and it is empty when
  every unit gives an empty series.
\<close>

theorem preferred_unit_first:
  assumes "dict_get fact_obj ''units'' (JDict []) = Inr (JDict units)"
  shows "(find (\<lambda>u. u \<in> set (map fst units)) pu = Some u \<longrightarrow>
            (\<exists>unit_data. map_of units u = Some unit_data \<and>
               extract_series pu fact_obj = parse_unit_series unit_data)) \<and>
         (list_all (\<lambda>u. u \<notin> set (map fst units)) pu \<and> map snd units = pre @ x # post \<and>
          list_all (\<lambda>y. parse_unit_series y = Inr []) pre \<and>
          parse_unit_series x = Inr s \<and> s \<noteq> [] \<longrightarrow>
            extract_series pu fact_obj = Inr s) \<and>
         (list_all (\<lambda>u. u \<notin> set (map fst units)) pu \<and>
          list_all (\<lambda>y. parse_unit_series y = Inr []) (map snd units) \<longrightarrow>
            extract_series pu fact_obj = Inr [])"
proof (intro conjI impI)
  have e: "extract_series pu fact_obj = try_preferred (JDict units) pu"
    using assms by (simp add: extract_series_def)
  {
    assume f: "find (\<lambda>u. u \<in> set (map fst units)) pu = Some u"
    then have "u \<in> set (map fst units)" by (auto simp: find_Some_iff)
    then obtain unit_data where m: "map_of units u = Some unit_data"
      by (cases "map_of units u") (auto simp: map_of_eq_None_iff)
    with f e show "\<exists>unit_data. map_of units u = Some unit_data \<and>
               extract_series pu fact_obj = parse_unit_series unit_data"
      by (simp add: try_preferred_dict)
  }
  {
    assume a: "list_all (\<lambda>u. u \<notin> set (map fst units)) pu \<and> map snd units = pre @ x # post \<and>
          list_all (\<lambda>y. parse_unit_series y = Inr []) pre \<and>
          parse_unit_series x = Inr s \<and> s \<noteq> []"
    then have "find (\<lambda>u. u \<in> set (map fst units)) pu = None"
      by (simp add: find_none_iff_list_all)
    with a e show "extract_series pu fact_obj = Inr s"
      by (simp add: try_preferred_dict try_any_first)
  }
  {
    assume a: "list_all (\<lambda>u. u \<notin> set (map fst units)) pu \<and>
          list_all (\<lambda>y. parse_unit_series y = Inr []) (map snd units)"
    then have "find (\<lambda>u. u \<in> set (map fst units)) pu = None"
      by (simp add: find_none_iff_list_all)
    with a e show "extract_series pu fact_obj = Inr []"
      by (simp add: try_preferred_dict try_any_none)
  }
qed

theorem preferred_unit_first_witness:
  "dict_get (JDict [(''units'', JDict usd_and_shares)]) ''units'' (JDict []) =
     Inr (JDict usd_and_shares) \<and>
   find (\<lambda>u. u \<in> set (map fst usd_and_shares)) [''USD'', ''shares''] = Some ''USD'' \<and>
   extract_series [''USD'', ''shares''] (JDict [(''units'', JDict usd_and_shares)]) =
     Inr [(JStr ''2023-12-31'', JInt 500, JStr ''2024-02-01'')] \<and>
   dict_get (JDict [(''units'', JDict other_units)]) ''units'' (JDict []) =
     Inr (JDict other_units) \<and>
   list_all (\<lambda>u. u \<notin> set (map fst other_units)) [''USD'', ''shares''] \<and>
   map snd other_units = [JList []] @ JList [obs ''2023-12-31'' ''2024-02-01'' 9] # [] \<and>
   list_all (\<lambda>y. parse_unit_series y = Inr []) [JList []] \<and>
   extract_series [''USD'', ''shares''] (JDict [(''units'', JDict other_units)]) =
     Inr [(JStr ''2023-12-31'', JInt 9, JStr ''2024-02-01'')] \<and>
   list_all (\<lambda>y. parse_unit_series y = Inr []) (map snd [(''EUR'', JList [])]) \<and>
   extract_series [''USD''] (JDict [(''units'', JDict [(''EUR'', JList [])])]) = Inr []"
proof -
  let ?pu = "[''USD'', ''shares'']"
  have a1: "dict_get (JDict [(''units'', JDict usd_and_shares)]) ''units'' (JDict []) =
     Inr (JDict usd_and_shares)" by code_simp
  have a2: "find (\<lambda>u. u \<in> set (map fst usd_and_shares)) ?pu = Some ''USD''" by code_simp
  have a3: "map_of usd_and_shares ''USD'' = Some (JList [obs ''2023-12-31'' ''2024-02-01'' 500])"
    by code_simp
  have a4: "parse_unit_series (JList [obs ''2023-12-31'' ''2024-02-01'' 500]) =
     Inr [(JStr ''2023-12-31'', JInt 500, JStr ''2024-02-01'')]" by code_simp
  from preferred_unit_first[OF a1, of ?pu "''USD''"] a2 a3 a4
  have c1: "extract_series ?pu (JDict [(''units'', JDict usd_and_shares)]) =
     Inr [(JStr ''2023-12-31'', JInt 500, JStr ''2024-02-01'')]" by auto
  have b1: "dict_get (JDict [(''units'', JDict other_units)]) ''units'' (JDict []) =
     Inr (JDict other_units)" by code_simp
  have b2: "list_all (\<lambda>u. u \<notin> set (map fst other_units)) ?pu" by code_simp
  have b3: "map snd other_units = [JList []] @ JList [obs ''2023-12-31'' ''2024-02-01'' 9] # []"
    by code_simp
  have b4: "list_all (\<lambda>y. parse_unit_series y = Inr []) [JList []]" by code_simp
  have b5: "parse_unit_series (JList [obs ''2023-12-31'' ''2024-02-01'' 9]) =
     Inr [(JStr ''2023-12-31'', JInt 9, JStr ''2024-02-01'')]" by code_simp
  from preferred_unit_first[OF b1, of ?pu _ "[JList []]" "JList [obs ''2023-12-31'' ''2024-02-01'' 9]" "[]"
        "[(JStr ''2023-12-31'', JInt 9, JStr ''2024-02-01'')]"] b2 b3 b4 b5
  have c2: "extract_series ?pu (JDict [(''units'', JDict other_units)]) =
     Inr [(JStr ''2023-12-31'', JInt 9, JStr ''2024-02-01'')]" by blast
  have d1: "dict_get (JDict [(''units'', JDict [(''EUR'', JList [])])]) ''units'' (JDict []) =
     Inr (JDict [(''EUR'', JList [])])" by code_simp
  have d2: "list_all (\<lambda>u. u \<notin> set (map fst [(''EUR'', JList [])])) [''USD'']" by code_simp
  have d3: "list_all (\<lambda>y. parse_unit_series y = Inr []) (map snd [(''EUR'', JList [])])"
    by code_simp
  from preferred_unit_first[OF d1, of "[''USD'']"] d2 d3
  have c3: "extract_series [''USD''] (JDict [(''units'', JDict [(''EUR'', JList [])])]) = Inr []"
    by blast
  from a1 a2 c1 b1 b2 b3 b4 c2 d3 c3 show ?thesis by blast
qed

section \<open>Properties of a statement\<close>

lemma wf_unit_series:
  assumes "wf_unit u"
  shows "\<exists>s. parse_unit_series u = Inr s \<and> str_series s"
proof -
  from assms obtain os where "u = JList os" "list_all wf_obs os"
    by (cases u) (auto simp: wf_unit_def)
  with parse_unit_series_resolved[of os] show ?thesis by blast
qed

lemma try_any_wf:
  assumes "list_all wf_unit us"
  shows "\<exists>s. try_any us = Inr s \<and> str_series s"
  using assms
proof (induction us)
  case Nil
  then show ?case by (simp add: str_series_def)
next
  case (Cons u us)
  then obtain s where "parse_unit_series u = Inr s" "str_series s"
    using wf_unit_series[of u] by auto
  with Cons show ?case by (cases "s = []") auto
qed

lemma wf_fact_series:
  assumes "wf_fact f"
  shows "\<exists>s. extract_series pu f = Inr s \<and> str_series s"
proof -
  from assms obtain kvs units where f: "f = JDict kvs"
    and u: "item kvs ''units'' (JDict []) = JDict units" and w: "list_all wf_unit (map snd units)"
    by (cases f; cases "item (case f of JDict kvs \<Rightarrow> kvs) ''units'' (JDict [])")
       (auto simp: wf_fact_def)
  have e: "extract_series pu f = try_preferred (JDict units) pu"
    using f u by (simp add: extract_series_def)
  show ?thesis
  proof (cases "find (\<lambda>u. u \<in> set (map fst units)) pu")
    case None
    with e try_any_wf[OF w] show ?thesis by (simp add: try_preferred_dict)
  next
    case (Some x)
    then have "x \<in> set (map fst units)" by (auto simp: find_Some_iff)
    then obtain d where d: "map_of units x = Some d"
      by (cases "map_of units x") (auto simp: map_of_eq_None_iff)
    then have "d \<in> set (map snd units)" by (auto dest: map_of_SomeD intro: rev_image_eqI)
    with w have "wf_unit d" by (auto simp: list_all_iff)
    with wf_unit_series[of d] e Some d show ?thesis by (simp add: try_preferred_dict)
  qed
qed

lemma wf_concept_series:
  assumes "wf_concept g c" and "truthy (item g c JNull)"
  shows "extract_series pu (item g c JNull) = Inr (series_of pu g c) \<and>
         str_series (series_of pu g c)"
  using assms wf_fact_series[of "item g c JNull" pu]
  by (auto simp: wf_concept_def series_of_def)

lemma series_of_falsy:
  assumes "\<not> truthy (item g c JNull)"
  shows "series_of pu g c = []"
proof (cases "item g c JNull")
  case (JDict kvs)
  with assms have "kvs = []" by simp
  with JDict show ?thesis
    by (simp add: series_of_def extract_series_def item_def try_preferred_dict
             find_none_iff_list_all[THEN iffD2] list_all_iff)
qed (simp_all add: series_of_def extract_series_def)

lemma key_norm_str: "key_norm k = JStr d \<longleftrightarrow> k = JStr d"
  by (cases k) auto

lemma series_get_None_iff: "series_get s (JStr d) = None \<longleftrightarrow> JStr d \<notin> fst ` set s"
  by (induction s) (auto simp: key_norm_str)

lemma has_date_iff: "has_date s d \<longleftrightarrow> JStr d \<in> fst ` set s"
  by (simp add: has_date_def series_get_None_iff)

lemma key_norm_is_str: "is_str k \<Longrightarrow> key_norm k = k"
  by (cases k) auto

lemma set_add_str:
  assumes "is_str k" and "list_all is_str ds"
  shows "set_add ds k = (if k \<in> set ds then ds else ds @ [k])"
proof -
  have "map key_norm ds = ds"
    using assms(2) by (induction ds) (auto simp: key_norm_is_str)
  with assms(1) show ?thesis by (simp add: set_add_def key_norm_is_str)
qed

lemma set_update_str:
  assumes "list_all is_str ks" and "list_all is_str ds" and "distinct ds"
  shows "set (set_update ds ks) = set ds \<union> set ks \<and> distinct (set_update ds ks) \<and>
         list_all is_str (set_update ds ks)"
  using assms
proof (induction ks arbitrary: ds)
  case Nil
  then show ?case by (simp add: set_update_def)
next
  case (Cons k ks)
  have a: "set_add ds k = (if k \<in> set ds then ds else ds @ [k])"
    using set_add_str Cons.prems by simp
  have "list_all is_str (set_add ds k)" "distinct (set_add ds k)"
    using Cons.prems a by auto
  from Cons.IH[OF _ this] Cons.prems(1) a show ?case
    by (auto simp: set_update_def)
qed

lemma str_series_keys: "str_series s \<Longrightarrow> list_all is_str (map fst s)"
  by (simp add: str_series_def list_all_iff)

lemma collect_wf:
  assumes "list_all (wf_concept g) cs" and "list_all is_str ds" and "distinct ds"
  shows "\<exists>m1 ds1. collect (JDict g) pu cs (m, ds) = Inr (m1, ds1) \<and>
           list_all is_str ds1 \<and> distinct ds1 \<and>
           set ds1 = set ds \<union> (\<Union>c \<in> set cs. fst ` set (series_of pu g c)) \<and>
           (\<forall>c. map_of m1 c =
                  (if c \<in> set cs \<and> series_of pu g c \<noteq> [] then Some (series_of pu g c)
                   else map_of m c))"
  using assms
proof (induction cs arbitrary: m ds)
  case Nil
  then show ?case by simp
next
  case (Cons c cs)
  from Cons.prems have wc: "wf_concept g c" and wcs: "list_all (wf_concept g) cs" by simp_all
  show ?case
  proof (cases "truthy (item g c JNull)")
    case False
    then have e: "series_of pu g c = []" by (rule series_of_falsy)
    from Cons.IH[OF wcs Cons.prems(2,3), of m] obtain m1 ds1 where
      r: "collect (JDict g) pu cs (m, ds) = Inr (m1, ds1)" "list_all is_str ds1" "distinct ds1"
        "set ds1 = set ds \<union> (\<Union>c \<in> set cs. fst ` set (series_of pu g c))"
        "\<forall>c. map_of m1 c =
                  (if c \<in> set cs \<and> series_of pu g c \<noteq> [] then Some (series_of pu g c)
                   else map_of m c)"
      by blast
    have "collect (JDict g) pu (c # cs) (m, ds) = Inr (m1, ds1)"
      using False r(1) by simp
    moreover have "set ds1 = set ds \<union> (\<Union>c \<in> set (c # cs). fst ` set (series_of pu g c))"
      using r(4) e by simp
    moreover have "\<forall>c'. map_of m1 c' =
                  (if c' \<in> set (c # cs) \<and> series_of pu g c' \<noteq> [] then Some (series_of pu g c')
                   else map_of m c')"
      using r(5) e by auto
    ultimately show ?thesis using r(2,3) by blast
  next
    case True
    from wf_concept_series[OF wc True, of pu]
    have x: "extract_series pu (item g c JNull) = Inr (series_of pu g c)"
      and ss: "str_series (series_of pu g c)" by simp_all
    show ?thesis
    proof (cases "series_of pu g c = []")
      case e: True
      from Cons.IH[OF wcs Cons.prems(2,3), of m] obtain m1 ds1 where
        r: "collect (JDict g) pu cs (m, ds) = Inr (m1, ds1)" "list_all is_str ds1" "distinct ds1"
          "set ds1 = set ds \<union> (\<Union>c \<in> set cs. fst ` set (series_of pu g c))"
          "\<forall>c. map_of m1 c =
                    (if c \<in> set cs \<and> series_of pu g c \<noteq> [] then Some (series_of pu g c)
                     else map_of m c)"
        by blast
      have "collect (JDict g) pu (c # cs) (m, ds) = Inr (m1, ds1)"
        using True x e r(1) by simp
      moreover have "set ds1 = set ds \<union> (\<Union>c \<in> set (c # cs). fst ` set (series_of pu g c))"
        using r(4) e by simp
      moreover have "\<forall>c'. map_of m1 c' =
                    (if c' \<in> set (c # cs) \<and> series_of pu g c' \<noteq> [] then Some (series_of pu g c')
                     else map_of m c')"
        using r(5) e by auto
      ultimately show ?thesis using r(2,3) by blast
    next
      case ne: False
      let ?s = "series_of pu g c"
      let ?ds = "set_update ds (map fst ?s)"
      from set_update_str[OF str_series_keys[OF ss] Cons.prems(2,3)]
      have u: "set ?ds = set ds \<union> fst ` set ?s" "distinct ?ds" "list_all is_str ?ds"
        by simp_all
      from Cons.IH[OF wcs u(3) u(2), of "(c, ?s) # m"] obtain m1 ds1 where
        r: "collect (JDict g) pu cs ((c, ?s) # m, ?ds) = Inr (m1, ds1)" "list_all is_str ds1"
          "distinct ds1"
          "set ds1 = set ?ds \<union> (\<Union>c \<in> set cs. fst ` set (series_of pu g c))"
          "\<forall>c'. map_of m1 c' =
                    (if c' \<in> set cs \<and> series_of pu g c' \<noteq> [] then Some (series_of pu g c')
                     else map_of ((c, ?s) # m) c')"
        by blast
      have "collect (JDict g) pu (c # cs) (m, ds) = Inr (m1, ds1)"
        using True x ne r(1) by simp
      moreover have "set ds1 = set ds \<union> (\<Union>c \<in> set (c # cs). fst ` set (series_of pu g c))"
        using r(4) u(1) by auto
      moreover have "\<forall>c'. map_of m1 c' =
                    (if c' \<in> set (c # cs) \<and> series_of pu g c' \<noteq> [] then Some (series_of pu g c')
                     else map_of m c')"
        using r(5) ne by auto
      ultimately show ?thesis using r(2,3) by blast
    qed
  qed
qed

lemma map_JStr_the_str: "list_all is_str ds \<Longrightarrow> map JStr (map the_str ds) = ds"
  by (induction ds) (auto simp: is_str_the_str)

lemma py_sorted_str:
  assumes "list_all is_str ds"
  shows "py_sorted ds = Inr (map JStr (sort (map the_str ds)))"
proof (cases "length ds \<le> 1")
  case True
  then have "sort (map the_str ds) = map the_str ds"
    by (cases ds) auto
  with True map_JStr_the_str[OF assms] show ?thesis by (simp add: py_sorted_def)
next
  case False
  with assms show ?thesis by (simp add: py_sorted_def)
qed

lemma the_str_image:
  assumes "list_all is_str ds"
  shows "d \<in> the_str ` set ds \<longleftrightarrow> JStr d \<in> set ds"
proof
  assume "d \<in> the_str ` set ds"
  then obtain k where "k \<in> set ds" "d = the_str k" by auto
  moreover from this assms have "is_str k" by (simp add: list_all_iff)
  ultimately show "JStr d \<in> set ds" by (simp add: is_str_the_str)
next
  assume "JStr d \<in> set ds"
  then show "d \<in> the_str ` set ds" by force
qed

lemma distinct_the_str:
  assumes "list_all is_str ds" and "distinct ds"
  shows "distinct (map the_str ds)"
proof -
  have "inj_on the_str (set ds)"
  proof (rule inj_onI)
    fix x y assume a: "x \<in> set ds" "y \<in> set ds" "the_str x = the_str y"
    with assms(1) have "is_str x" "is_str y" by (auto simp: list_all_iff)
    then have "JStr (the_str x) = x" "JStr (the_str y) = y"
      by (simp_all add: is_str_the_str)
    with a(3) show "x = y" by metis
  qed
  with assms(2) show ?thesis by (simp add: distinct_map)
qed

lemma cell_value_at:
  assumes "map_of m c = (if series_of pu g c \<noteq> [] then Some (series_of pu g c) else None)"
  shows "cell m c (JStr d) = value_at (series_of pu g c) d"
  using assms by (auto simp: cell_def value_at_def split: option.splits)

text \<open>
  Claim C7.  For a fact graph whose facts for the listed concepts are well formed, with at
  least one concept that has a resolved series, the statement is written: after the header
  it has one row per date of the union of the resolved dates, in strictly ascending order
  of the date strings, and each row is the date followed by one cell per concept of the
  list, in order, holding the resolved value or the empty string when the concept has no
  value for that date.
\<close>

theorem statement_rows:
  assumes "list_all (wf_concept g) concepts"
    and "list_ex (\<lambda>c. series_of pu g c \<noteq> []) concepts"
  shows "\<exists>dates.
           generate_statement pu (JDict g) concepts True =
             Inr (Some ((JStr ''Date'' # map JStr concepts) #
                        map (\<lambda>d. JStr d # map (\<lambda>c. value_at (series_of pu g c) d) concepts) dates)) \<and>
           sorted dates \<and> distinct dates \<and>
           set dates = {d. \<exists>c \<in> set concepts. has_date (series_of pu g c) d}"
proof -
  from collect_wf[OF assms(1), of "[]" pu "[]"] obtain m1 ds1 where
    r: "collect (JDict g) pu concepts ([], []) = Inr (m1, ds1)" "list_all is_str ds1"
      "distinct ds1"
      "set ds1 = (\<Union>c \<in> set concepts. fst ` set (series_of pu g c))"
      "\<forall>c. map_of m1 c =
             (if c \<in> set concepts \<and> series_of pu g c \<noteq> [] then Some (series_of pu g c)
              else None)"
    by auto
  let ?dates = "sort (map the_str ds1)"
  from assms(2) obtain c0 where "c0 \<in> set concepts" "series_of pu g c0 \<noteq> []"
    by (auto simp: list_ex_iff)
  then have "set ds1 \<noteq> {}" unfolding r(4) by (cases "series_of pu g c0") force+
  then have ne: "ds1 \<noteq> []" by auto
  have cells: "map (\<lambda>c. cell m1 c (JStr d)) concepts =
               map (\<lambda>c. value_at (series_of pu g c) d) concepts" for d
  proof (rule map_cong[OF refl])
    fix c assume "c \<in> set concepts"
    with r(5) have "map_of m1 c =
        (if series_of pu g c \<noteq> [] then Some (series_of pu g c) else None)" by simp
    then show "cell m1 c (JStr d) = value_at (series_of pu g c) d" by (rule cell_value_at)
  qed
  have "generate_statement pu (JDict g) concepts True =
          Inr (Some ((JStr ''Date'' # map JStr concepts) #
                     map (\<lambda>d. JStr d # map (\<lambda>c. value_at (series_of pu g c) d) concepts) ?dates))"
    using r(1) ne py_sorted_str[OF r(2)] cells
    by (simp add: generate_statement_def comp_def)
  moreover have "sorted ?dates" by simp
  moreover have "distinct ?dates" using distinct_the_str[OF r(2,3)] by simp
  moreover have "set ?dates = {d. \<exists>c \<in> set concepts. has_date (series_of pu g c) d}"
  proof -
    have "d \<in> set ?dates \<longleftrightarrow> (\<exists>c \<in> set concepts. has_date (series_of pu g c) d)" for d
    proof -
      have "d \<in> set ?dates \<longleftrightarrow> d \<in> the_str ` set ds1" by simp
      also have "\<dots> \<longleftrightarrow> JStr d \<in> set ds1" by (rule the_str_image[OF r(2)])
      also have "\<dots> \<longleftrightarrow> (\<exists>c \<in> set concepts. has_date (series_of pu g c) d)"
        unfolding r(4) by (simp add: has_date_iff)
      finally show ?thesis .
    qed
    then show ?thesis by blast
  qed
  ultimately show ?thesis by blast
qed

theorem statement_rows_witness:
  "list_all (wf_concept two_concepts) [''Assets'', ''Cash'', ''Goodwill''] \<and>
   list_ex (\<lambda>c. series_of [''USD''] two_concepts c \<noteq> []) [''Assets'', ''Cash'', ''Goodwill''] \<and>
   (\<exists>dates.
      generate_statement [''USD''] (JDict two_concepts) [''Assets'', ''Cash'', ''Goodwill''] True =
        Inr (Some ((JStr ''Date'' # map JStr [''Assets'', ''Cash'', ''Goodwill'']) #
                   map (\<lambda>d. JStr d #
                          map (\<lambda>c. value_at (series_of [''USD''] two_concepts c) d)
                              [''Assets'', ''Cash'', ''Goodwill'']) dates)) \<and>
      sorted dates \<and> distinct dates) \<and>
   generate_statement [''USD''] (JDict two_concepts) [''Assets'', ''Cash'', ''Goodwill''] True =
     Inr (Some [[JStr ''Date'', JStr ''Assets'', JStr ''Cash'', JStr ''Goodwill''],
                [JStr ''2022-12-31'', JInt 400, JStr [], JStr []],
                [JStr ''2023-12-31'', JInt 510, JInt 50, JStr []]])"
proof -
  let ?cs = "[''Assets'', ''Cash'', ''Goodwill'']"
  have h1: "list_all (wf_concept two_concepts) ?cs" by code_simp
  have h2: "list_ex (\<lambda>c. series_of [''USD''] two_concepts c \<noteq> []) ?cs" by code_simp
  have v: "generate_statement [''USD''] (JDict two_concepts) ?cs True =
     Inr (Some [[JStr ''Date'', JStr ''Assets'', JStr ''Cash'', JStr ''Goodwill''],
                [JStr ''2022-12-31'', JInt 400, JStr [], JStr []],
                [JStr ''2023-12-31'', JInt 510, JInt 50, JStr []]])" by code_simp
  from statement_rows[OF h1 h2] h1 h2 v show ?thesis by blast
qed

lemma collect_fails:
  assumes "c \<in> set cs" and "truthy (item g c JNull)"
    and "extract_series pu (item g c JNull) = Inl e"
  shows "\<exists>e1. collect (JDict g) pu cs st = Inl e1"
  using assms(1)
proof (induction cs arbitrary: st)
  case Nil
  then show ?case by simp
next
  case (Cons c1 cs)
  show ?case
  proof (cases "c1 = c")
    case True
    with assms(2,3) show ?thesis by simp
  next
    case False
    with Cons.prems have "c \<in> set cs" by simp
    from Cons.IH[OF this] show ?thesis
      by (cases "extract_series pu (item g c1 JNull)") auto
  qed
qed

lemma generate_all_fails:
  assumes "sc \<in> set scs" and "generate_statement pu us (snd sc) (writable (fst sc)) = Inl e"
  shows "\<exists>e1. generate_all pu us writable scs gen = Inl e1"
  using assms(1)
proof (induction scs arbitrary: gen)
  case Nil
  then show ?case by simp
next
  case (Cons sc1 scs)
  show ?case
  proof (cases "sc1 = sc")
    case True
    with assms(2) show ?thesis by simp
  next
    case False
    with Cons.prems have "sc \<in> set scs" by simp
    from Cons.IH[OF this] show ?thesis
      by (cases "generate_statement pu us (snd sc1) (writable (fst sc1))")
         (auto split: option.splits)
  qed
qed

lemma extract_body_company_facts:
  assumes "truthy u"
  shows "extract_body cfg (Inr (company_facts u)) writable save_raw =
      (case generate_all (preferred_units cfg) u writable
              [(''IS'', income_statement_concepts cfg), (''BS'', balance_sheet_concepts cfg),
               (''CF'', cash_flow_concepts cfg)] [] of
         Inl e \<Rightarrow> Inl e
       | Inr gen \<Rightarrow>
           Inr \<lparr>generated = gen, raw_json = save_raw, statement_count = length gen\<rparr>)"
  using assms
  by (simp add: extract_body_def company_facts_def item_def del: generate_all.simps)

lemma absent_concept_skipped:
  assumes "\<not> truthy (item g c0 JNull)"
  shows "collect (JDict g) pu (c0 # cs) st = collect (JDict g) pu cs st"
  using assms by simp

text \<open>
  Claim C4, as amended.  A concept that is absent from the fact graph, or whose fact is
  empty, is skipped: the loop goes on with the state it had, so the concept gives an empty
  column and nothing is aborted.  A concept whose data makes the reading of its series
  raise (its units are not a mapping, one of its observations is not a record) is not
  caught per concept: the statement that lists it raises, and the extraction of all the
  statements raises \<open>ExtractionError\<close>.
\<close>

theorem malformed_concept_aborts:
  assumes "c \<in> set concepts" and "truthy (item g c JNull)"
    and "extract_series (preferred_units cfg) (item g c JNull) = Inl e"
    and "concepts = income_statement_concepts cfg \<or> concepts = balance_sheet_concepts cfg \<or>
         concepts = cash_flow_concepts cfg"
    and "\<not> truthy (item g c0 JNull)"
  shows "(\<exists>e1. generate_statement (preferred_units cfg) (JDict g) concepts w = Inl e1) \<and>
         extract_statements cfg True (Inr (company_facts (JDict g))) writable save_raw =
           Inl ExtractionError \<and>
         collect (JDict g) pu (c0 # cs) st = collect (JDict g) pu cs st"
proof (intro conjI)
  let ?pu = "preferred_units cfg"
  have gs: "\<exists>e1. generate_statement ?pu (JDict g) concepts w = Inl e1" for w
    using collect_fails[OF assms(1,2,3), of "([], [])"]
    by (auto simp: generate_statement_def)
  then show "\<exists>e1. generate_statement ?pu (JDict g) concepts w = Inl e1" .
  let ?scs = "[(''IS'', income_statement_concepts cfg), (''BS'', balance_sheet_concepts cfg),
               (''CF'', cash_flow_concepts cfg)]"
  have "\<exists>e2. generate_all ?pu (JDict g) writable ?scs [] = Inl e2"
  proof -
    from assms(4) consider "concepts = income_statement_concepts cfg"
      | "concepts = balance_sheet_concepts cfg" | "concepts = cash_flow_concepts cfg"
      by blast
    then show ?thesis
    proof cases
      case 1
      let ?sc = "(''IS'', income_statement_concepts cfg)"
      have m: "?sc \<in> set ?scs" by (simp only: list.set insert_iff) blast
      from gs[of "writable ''IS''"] 1 obtain e1 where
        "generate_statement ?pu (JDict g) (snd ?sc) (writable (fst ?sc)) = Inl e1"
        unfolding fst_conv snd_conv by blast
      from generate_all_fails[where writable = writable and gen = "[]", OF m this]
      show ?thesis .
    next
      case 2
      let ?sc = "(''BS'', balance_sheet_concepts cfg)"
      have m: "?sc \<in> set ?scs" by (simp only: list.set insert_iff) blast
      from gs[of "writable ''BS''"] 2 obtain e1 where
        "generate_statement ?pu (JDict g) (snd ?sc) (writable (fst ?sc)) = Inl e1"
        unfolding fst_conv snd_conv by blast
      from generate_all_fails[where writable = writable and gen = "[]", OF m this]
      show ?thesis .
    next
      case 3
      let ?sc = "(''CF'', cash_flow_concepts cfg)"
      have m: "?sc \<in> set ?scs" by (simp only: list.set insert_iff) blast
      from gs[of "writable ''CF''"] 3 obtain e1 where
        "generate_statement ?pu (JDict g) (snd ?sc) (writable (fst ?sc)) = Inl e1"
        unfolding fst_conv snd_conv by blast
      from generate_all_fails[where writable = writable and gen = "[]", OF m this]
      show ?thesis .
    qed
  qed
  then obtain e2 where ga: "generate_all ?pu (JDict g) writable ?scs [] = Inl e2" by (rule exE)
  from assms(2) have "truthy (JDict g)" by (auto simp: item_def)
  then have "extract_body cfg (Inr (company_facts (JDict g))) writable save_raw =
      (case generate_all ?pu (JDict g) writable ?scs [] of
         Inl e \<Rightarrow> Inl e
       | Inr gen \<Rightarrow>
           Inr \<lparr>generated = gen, raw_json = save_raw, statement_count = length gen\<rparr>)"
    by (rule extract_body_company_facts)
  then have "extract_body cfg (Inr (company_facts (JDict g))) writable save_raw = Inl e2"
    unfolding ga by simp
  then show "extract_statements cfg True (Inr (company_facts (JDict g))) writable save_raw =
           Inl ExtractionError"
    by (simp add: extract_statements_def)
  show "collect (JDict g) pu (c0 # cs) st = collect (JDict g) pu cs st"
    using assms(5) by simp
qed

theorem malformed_concept_counterexample:
  "generate_statement [''USD'', ''shares''] assets_graph [''Assets''] True =
     Inr (Some [[JStr ''Date'', JStr ''Assets''], [JStr ''2023-12-31'', JInt 510]]) \<and>
   generate_statement [''USD'', ''shares''] assets_graph [''Assets'', ''Liabilities''] True =
     Inl AttributeError \<and>
   extract_statements bs_config True (Inr (company_facts assets_graph)) (\<lambda>code. True) True =
     Inl ExtractionError \<and>
   generate_statement [''USD'', ''shares''] bad_obs_graph [''Assets'', ''Liabilities''] True =
     Inl AttributeError \<and>
   extract_statements bs_config True (Inr (company_facts bad_obs_graph)) (\<lambda>code. True) True =
     Inl ExtractionError"
  by code_simp

theorem malformed_concept_aborts_witness:
  "''Liabilities'' \<in> set [''Assets'', ''Liabilities''] \<and>
   truthy (item (two_concepts @ [(''Liabilities'', JDict [(''units'', JList [JInt 1])])])
             ''Liabilities'' JNull) \<and>
   extract_series (preferred_units bs_config)
     (item (two_concepts @ [(''Liabilities'', JDict [(''units'', JList [JInt 1])])])
        ''Liabilities'' JNull) = Inl AttributeError \<and>
   [''Assets'', ''Liabilities''] = balance_sheet_concepts bs_config \<and>
   \<not> truthy (item (two_concepts @ [(''Liabilities'', JDict [(''units'', JList [JInt 1])])])
               ''Goodwill'' JNull) \<and>
   (\<exists>e1. generate_statement (preferred_units bs_config)
      (JDict (two_concepts @ [(''Liabilities'', JDict [(''units'', JList [JInt 1])])]))
      [''Assets'', ''Liabilities''] True = Inl e1) \<and>
   extract_statements bs_config True
     (Inr (company_facts
        (JDict (two_concepts @ [(''Liabilities'', JDict [(''units'', JList [JInt 1])])]))))
     (\<lambda>code. True) True = Inl ExtractionError"
proof -
  let ?g = "two_concepts @ [(''Liabilities'', JDict [(''units'', JList [JInt 1])])]"
  have h1: "''Liabilities'' \<in> set [''Assets'', ''Liabilities'']" by simp
  have h2: "truthy (item ?g ''Liabilities'' JNull)" by code_simp
  have h3: "extract_series (preferred_units bs_config) (item ?g ''Liabilities'' JNull) =
            Inl AttributeError" by code_simp
  have h4: "[''Assets'', ''Liabilities''] = balance_sheet_concepts bs_config" by code_simp
  have h4': "[''Assets'', ''Liabilities''] = income_statement_concepts bs_config \<or>
             [''Assets'', ''Liabilities''] = balance_sheet_concepts bs_config \<or>
             [''Assets'', ''Liabilities''] = cash_flow_concepts bs_config"
    using h4 by simp
  have h5: "\<not> truthy (item ?g ''Goodwill'' JNull)" by code_simp
  from malformed_concept_aborts[OF h1 h2 h3 h4' h5, of True "\<lambda>code. True" True]
    h1 h2 h3 h4 h5
  show ?thesis by blast
qed

section \<open>Properties of the section extractor\<close>

text \<open>
  Claim C3.  The text of a script element is not removed: the substitution that removes
  the style blocks starts again from \<open>html\<close>, so the result of the substitution that
  removed the script blocks is lost, and of a script element only the two tags are taken
  away later.  The style block of the same input is removed with its text.
\<close>

theorem script_text_kept:
  "markup_removed script_page = '' alert(1)  x'' \<and>
   html_to_text (\<lambda>s. s) script_page = '' alert(1) x''"
  by code_simp

text \<open>
  Claim C9.  For a source that is a file of non-zero size whose text can be read, when no
  place of the normalized text matches the item-header pattern, the call returns a result
  with no section, no index file and the count 0, and writes no file.  A missing source, a
  source that is not a file and an empty file raise \<open>ExtractionError\<close>, whatever the
  other arguments are.
\<close>

theorem no_headers_no_sections:
  assumes "st_size \<noteq> 0" and "dir_ok"
    and "finditer 0 True (html_to_text unescape raw_html) = []"
  shows "extract_sections unescape path (File st_size (Inr raw_html)) dir_ok writable =
           Inr \<lparr>sections = [], index_file = None, section_count = 0, files_written = []\<rparr> \<and>
         find_sections (html_to_text unescape raw_html) = [] \<and>
         extract_sections unescape path Missing d w = Inl ExtractionError \<and>
         extract_sections unescape path NotAFile d w = Inl ExtractionError \<and>
         extract_sections unescape path (File 0 content) d w = Inl ExtractionError"
proof (intro conjI)
  show f: "find_sections (html_to_text unescape raw_html) = []"
    using assms(3) by (simp add: find_sections_def)
  show "extract_sections unescape path (File st_size (Inr raw_html)) dir_ok writable =
           Inr \<lparr>sections = [], index_file = None, section_count = 0, files_written = []\<rparr>"
    using assms(1,2) f by (simp add: extract_sections_def validate_source_def)
  show "extract_sections unescape path Missing d w = Inl ExtractionError"
    by (simp add: extract_sections_def validate_source_def)
  show "extract_sections unescape path NotAFile d w = Inl ExtractionError"
    by (simp add: extract_sections_def validate_source_def)
  show "extract_sections unescape path (File 0 content) d w = Inl ExtractionError"
    by (simp add: extract_sections_def validate_source_def)
qed

theorem no_headers_no_sections_witness:
  "(22::nat) \<noteq> 0 \<and> finditer 0 True (html_to_text (\<lambda>s. s) plain_page) = [] \<and>
   extract_sections (\<lambda>s. s) (\<lambda>name. ''out/'' @ name) (File 22 (Inr plain_page)) True True =
     Inr \<lparr>sections = [], index_file = None, section_count = 0, files_written = []\<rparr> \<and>
   extract_sections (\<lambda>s. s) (\<lambda>name. ''out/'' @ name) Missing True True = Inl ExtractionError"
proof -
  have h1: "(22::nat) \<noteq> 0" by simp
  have h2: "True" by simp
  have h3: "finditer 0 True (html_to_text (\<lambda>s. s) plain_page) = []" by code_simp
  from no_headers_no_sections[OF h1 h2 h3, of "\<lambda>name. ''out/'' @ name" True True True] h1 h3
  show ?thesis by simp
qed

end
